theory Spec2Isabelle
  imports Main "HOL-Library.Word"
begin

unbundle bit_operations_syntax

section \<open>Machine integers and constants of file.go\<close>

text \<open>
  Go's \<open>int64\<close> (and \<open>int\<close>, on the 64-bit platforms where \<open>szFile = 256\<close> holds) is
  modelled as \<open>int\<close>; every addition, subtraction and left shift of the source is reduced
  with \<open>i64\<close>, the two's complement wrap-around to 64 bits. Bitwise \<open>AND\<close>, \<open>OR\<close>,
  \<open>NOT\<close> and the arithmetic right shift (\<open>drop_bit\<close>) keep a value in range.
\<close>

definition i64 :: "int \<Rightarrow> int" where
  "i64 n = (n + 2 ^ 63) mod 2 ^ 64 - 2 ^ 63"

abbreviation (input) max_int64 :: int where "max_int64 \<equiv> 9223372036854775807"

definition in64 :: "int \<Rightarrow> bool" where
  "in64 n \<longleftrightarrow> - 9223372036854775808 \<le> n \<and> n \<le> max_int64"

text \<open>\<open>x << k\<close> for a shift count that went through \<open>uint(...)\<close>: a negative
  count becomes a huge unsigned one, and counts of 64 or more shift everything out.\<close>

definition shl64 :: "int \<Rightarrow> int \<Rightarrow> int" where
  "shl64 x k = (if k < 0 \<or> 64 \<le> k then 0 else i64 (push_bit (nat k) x))"

abbreviation (input) allocAllign :: int where "allocAllign \<equiv> 16"
abbreviation (input) bufSize :: int where "bufSize \<equiv> 1048576"
abbreviation (input) slotRanks :: int where "slotRanks \<equiv> 7"
abbreviation (input) maxSharedRank :: int where "maxSharedRank \<equiv> 6"
abbreviation (input) firstPageRank :: int where "firstPageRank \<equiv> 7"
abbreviation (input) maxSlot :: int where "maxSlot \<equiv> 1024"
abbreviation (input) ranks :: int where "ranks \<equiv> 23"
abbreviation (input) pageLog :: nat where "pageLog \<equiv> 12"
abbreviation (input) pageSize :: int where "pageSize \<equiv> 4096"
abbreviation (input) pageMask :: int where "pageMask \<equiv> 4095"
abbreviation (input) szFile :: int where "szFile \<equiv> 256"
abbreviation (input) szNode :: int where "szNode \<equiv> 16"
abbreviation (input) szPage :: int where "szPage \<equiv> 48"
abbreviation (input) szTail :: int where "szTail \<equiv> 8"
abbreviation (input) pageAvail :: int where "pageAvail \<equiv> 4040"
abbreviation (input) oFileSkip :: int where "oFileSkip \<equiv> 16"
abbreviation (input) oFilePages :: int where "oFilePages \<equiv> 16"
abbreviation (input) oFileSlots :: int where "oFileSlots \<equiv> 200"

datatype error = InvalidArgument | CorruptedFile | InternalError | EOF | IOError

text \<open>
  The result of a Go function whose last result is an \<open>error\<close>: \<open>Ok v\<close> is the
  return of \<open>v\<close> with a nil error, \<open>Err e\<close> the return of the non-nil error \<open>e\<close>
  (the value returned beside it, \<open>-1\<close> or \<open>nil\<close> in most places, is dropped), and
  \<open>Panic\<close> a call of \<open>panic\<close> or a run-time panic (index out of range).
  Every function returns the state it leaves behind next to its outcome.
\<close>

datatype 'a outcome = Ok 'a | Err error | Panic

definition bind :: "'s \<times> 'a outcome \<Rightarrow> ('s \<Rightarrow> 'a \<Rightarrow> 's \<times> 'b outcome) \<Rightarrow> 's \<times> 'b outcome" where
  "bind r k = (case r of (s, Ok v) \<Rightarrow> k s v | (s, Err e) \<Rightarrow> (s, Err e) | (s, Panic) \<Rightarrow> (s, Panic))"

definition lift_err :: "'s \<times> error option \<Rightarrow> 's \<times> unit outcome" where
  "lift_err r = (case r of (s, None) \<Rightarrow> (s, Ok ()) | (s, Some e) \<Rightarrow> (s, Err e))"

section \<open>Helpers: log, pageRank, read, rank, roundup, slotRank, write\<close>

text \<open>\<open>mathutil.BitLen\<close> (an imported package): the number of bits of a non-negative
  \<open>int\<close>, 0 for 0.\<close>

function BitLen :: "int \<Rightarrow> int" where
  "BitLen n = (if n \<le> 0 then 0 else 1 + BitLen (n div 2))"
  by pat_completeness auto
termination
  by (relation "measure nat") auto

declare BitLen.simps [simp del]

definition log :: "int \<Rightarrow> int outcome" where
  "log n = (if n \<le> 0 then Panic else Ok (BitLen (i64 (n - 1))))"

definition roundup :: "int \<Rightarrow> int \<Rightarrow> int" where
  "roundup n m = i64 (i64 (n + m) - 1) AND NOT (i64 (m - 1))"

definition roundup64 :: "int \<Rightarrow> int \<Rightarrow> int" where
  "roundup64 n m = i64 (i64 (n + m) - 1) AND NOT (i64 (m - 1))"

definition pageRank :: "int \<Rightarrow> int outcome" where
  "pageRank n =
     (if n \<le> maxSlot then Panic
      else let r = i64 (drop_bit pageLog (roundup64 n pageSize) + 6)
           in Ok (if r \<ge> ranks then ranks - 1 else r))"

definition slotRank :: "int \<Rightarrow> int outcome" where
  "slotRank n =
     (if n < 1 \<or> n > 1024 then Panic
      else case log (roundup n allocAllign) of
             Ok l \<Rightarrow> Ok (i64 (l - 4)) | Err e \<Rightarrow> Err e | Panic \<Rightarrow> Panic)"

definition rank :: "int \<Rightarrow> int outcome" where
  "rank n = (if n \<le> maxSlot then slotRank n else pageRank n)"

type_synonym byte = "8 word"

text \<open>\<open>read\<close>: big-endian decoding of \<open>b[:8]\<close>; every call site passes at least 8 bytes.\<close>

definition read :: "byte list \<Rightarrow> int" where
  "read b = foldl (\<lambda>n v. i64 (push_bit 8 n) OR uint v) 0 (take 8 b)"

text \<open>\<open>write\<close>: in round \<open>i\<close> of the loop \<open>n\<close> has been shifted left by \<open>8 * i\<close>
  bits, and \<open>byte(n >> 56)\<close> is stored.\<close>

definition write_be :: "int \<Rightarrow> byte list" where
  "write_be n = map (\<lambda>i. word_of_int (drop_bit 56 (i64 (push_bit (8 * i) n)))) [0, 1, 2, 3, 4, 5, 6, 7]"

section \<open>The backing store\<close>

text \<open>
  The \<open>File\<close> interface, modelled as an in-memory file: \<open>data\<close> holds the byte at each
  offset below \<open>flen\<close> (what it holds above is not part of the file), and \<open>broken\<close>
  makes every \<open>WriteAt\<close> and \<open>Truncate\<close> fail, leaving the file as it is.
  As with \<open>os.File\<close>, a write past the end fills the gap with zeroes, a read that ends
  past the end returns the bytes there are with \<open>io.EOF\<close>, and a negative offset is an
  error. No file grows beyond \<open>max_int64\<close> bytes.
\<close>

record File =
  data :: "int \<Rightarrow> byte"
  flen :: int
  broken :: bool

definition ReadAt :: "File \<Rightarrow> nat \<Rightarrow> int \<Rightarrow> byte list \<times> error option" where
  "ReadAt fl n off =
     (if off < 0 then ([], Some IOError)
      else if off + int n \<le> flen fl then (map (\<lambda>k. data fl (off + int k)) [0..<n], None)
      else (map (\<lambda>k. data fl (off + int k)) [0..<nat (flen fl - off)], Some EOF))"

text \<open>The file after the bytes \<open>b\<close> have been stored at \<open>off\<close>.\<close>

definition store_bytes :: "File \<Rightarrow> int \<Rightarrow> byte list \<Rightarrow> File" where
  "store_bytes fl off b =
     fl\<lparr>data := (\<lambda>i. if off \<le> i \<and> i < off + int (length b) then b ! nat (i - off)
                        else if flen fl \<le> i then 0 else data fl i),
         flen := max (flen fl) (off + int (length b))\<rparr>"

definition WriteAt :: "File \<Rightarrow> byte list \<Rightarrow> int \<Rightarrow> File \<times> error option" where
  "WriteAt fl b off =
     (if broken fl \<or> off < 0 \<or> max_int64 < off + int (length b) then (fl, Some IOError)
      else if b = [] then (fl, None)
      else (store_bytes fl off b, None))"

text \<open>The file cut or extended (with zeroes) to \<open>n\<close> bytes.\<close>

definition set_length :: "File \<Rightarrow> int \<Rightarrow> File" where
  "set_length fl n = fl\<lparr>data := (\<lambda>i. if flen fl \<le> i then 0 else data fl i), flen := n\<rparr>"

definition Truncate :: "File \<Rightarrow> int \<Rightarrow> File \<times> error option" where
  "Truncate fl n =
     (if broken fl \<or> n < 0 then (fl, Some IOError)
      else (set_length fl n, None))"

section \<open>Nodes, pages and the allocator\<close>

text \<open>
  \<open>memNode\<close> and \<open>memPage\<close> embed a pointer to the one \<open>Allocator\<close>; their methods take
  the allocator as an argument and return it. The embedded \<open>file\<close> struct of the
  \<open>Allocator\<close> is its two arrays \<open>pages\<close> and \<open>slots\<close>; an index outside the array
  panics. \<open>cap\<close> is filled once by \<open>NewAllocator\<close> and never written again, and
  \<open>buf\<close> is overwritten as a whole by every \<open>flush\<close>.
\<close>

record memNode =
  n_dirty :: bool
  n_prev :: int
  n_next :: int
  n_off :: int

record memPage =
  p_dirty :: bool
  p_off :: int
  p_brk :: int
  p_prev :: int
  p_next :: int
  p_rank :: int
  p_size :: int
  p_used :: int

record Allocator =
  dirty :: bool
  a_f :: File
  pages :: "nat \<Rightarrow> int"
  slots :: "nat \<Rightarrow> int"
  fsize :: int
  allocs :: int
  bytes :: int
  npages :: int

definition cap :: "int \<Rightarrow> int" where
  "cap i = pageAvail div shl64 1 (i + 4)"

definition setPage :: "Allocator \<Rightarrow> int \<Rightarrow> int \<Rightarrow> Allocator" where
  "setPage a rnk n = a\<lparr>pages := (pages a)(nat rnk := n), dirty := True\<rparr>"

definition setSlot :: "Allocator \<Rightarrow> int \<Rightarrow> int \<Rightarrow> Allocator" where
  "setSlot a rnk n = a\<lparr>slots := (slots a)(nat rnk := n), dirty := True\<rparr>"

definition write_file :: "Allocator \<Rightarrow> byte list \<Rightarrow> int \<Rightarrow> Allocator \<times> error option" where
  "write_file a b off = (case WriteAt (a_f a) b off of (fl, err) \<Rightarrow> (a\<lparr>a_f := fl\<rparr>, err))"

subsection \<open>memNode\<close>

definition node_bytes :: "memNode \<Rightarrow> byte list" where
  "node_bytes m = write_be (n_prev m) @ write_be (n_next m)"

definition memNode_flush :: "memNode \<Rightarrow> Allocator \<Rightarrow> (Allocator \<times> memNode) \<times> error option" where
  "memNode_flush m a =
     (if \<not> n_dirty m then ((a, m), None)
      else case write_file a (node_bytes m) (n_off m) of
             (a', err) \<Rightarrow> ((a', m\<lparr>n_dirty := (err = None)\<rparr>), err))"

definition memNode_setNext :: "memNode \<Rightarrow> int \<Rightarrow> memNode" where
  "memNode_setNext m n = m\<lparr>n_next := n, n_dirty := True\<rparr>"

definition memNode_setPrev :: "memNode \<Rightarrow> int \<Rightarrow> memNode" where
  "memNode_setPrev m n = m\<lparr>n_prev := n, n_dirty := True\<rparr>"

definition openNode :: "Allocator \<Rightarrow> int \<Rightarrow> Allocator \<times> memNode outcome" where
  "openNode a off =
     (case ReadAt (a_f a) 16 off of
        (b, Some e) \<Rightarrow> (a, Err e)
      | (b, None) \<Rightarrow> (a, Ok \<lparr>n_dirty = False, n_prev = read b, n_next = read (drop 8 b), n_off = off\<rparr>))"

text \<open>The flush of a node or page as one step of a caller that returns on its error.\<close>

definition flush_node :: "memNode \<Rightarrow> Allocator \<Rightarrow> Allocator \<times> unit outcome" where
  "flush_node m a = (case memNode_flush m a of ((a', m'), err) \<Rightarrow> lift_err (a', err))"

definition memNode_unlink :: "memNode \<Rightarrow> int \<Rightarrow> Allocator \<Rightarrow> Allocator \<times> unit outcome" where
  "memNode_unlink m rnk a =
     bind (if n_prev m \<noteq> 0
           then bind (openNode a (n_prev m)) (\<lambda>a prev. flush_node (memNode_setNext prev (n_next m)) a)
           else (a, Ok ()))
       (\<lambda>a _.
     bind (if n_next m \<noteq> 0
           then bind (openNode a (n_next m)) (\<lambda>a next. flush_node (memNode_setPrev next (n_prev m)) a)
           else (a, Ok ()))
       (\<lambda>a _.
     if rnk < 0 \<or> slotRanks \<le> rnk then (a, Panic)
     else if slots a (nat rnk) = n_off m then (setSlot a rnk (n_next m), Ok ())
     else (a, Ok ())))"

subsection \<open>memPage\<close>

definition page_bytes :: "memPage \<Rightarrow> byte list" where
  "page_bytes m = write_be (p_brk m) @ write_be (p_prev m) @ write_be (p_next m)
                  @ write_be (p_rank m) @ write_be (p_size m) @ write_be (p_used m)"

definition memPage_flush :: "memPage \<Rightarrow> Allocator \<Rightarrow> (Allocator \<times> memPage) \<times> error option" where
  "memPage_flush m a =
     (if \<not> p_dirty m then ((a, m), None)
      else case write_file a (page_bytes m) (p_off m) of
             (a', err) \<Rightarrow> ((a', m\<lparr>p_dirty := (err = None)\<rparr>), err))"

definition flush_page :: "memPage \<Rightarrow> Allocator \<Rightarrow> Allocator \<times> memPage outcome" where
  "flush_page m a =
     (case memPage_flush m a of
        ((a', m'), None) \<Rightarrow> (a', Ok m')
      | ((a', m'), Some e) \<Rightarrow> (a', Err e))"

definition setBrk :: "memPage \<Rightarrow> int \<Rightarrow> memPage" where
  "setBrk m n = m\<lparr>p_brk := n, p_dirty := True\<rparr>"

definition setNext :: "memPage \<Rightarrow> int \<Rightarrow> memPage" where
  "setNext m n = m\<lparr>p_next := n, p_dirty := True\<rparr>"

definition setPrev :: "memPage \<Rightarrow> int \<Rightarrow> memPage" where
  "setPrev m n = m\<lparr>p_prev := n, p_dirty := True\<rparr>"

definition setRank :: "memPage \<Rightarrow> int \<Rightarrow> memPage" where
  "setRank m n = m\<lparr>p_rank := n, p_dirty := True\<rparr>"

definition setSize :: "memPage \<Rightarrow> int \<Rightarrow> memPage" where
  "setSize m n = m\<lparr>p_size := n, p_dirty := True\<rparr>"

definition setUsed :: "memPage \<Rightarrow> int \<Rightarrow> memPage" where
  "setUsed m n = m\<lparr>p_used := n, p_dirty := True\<rparr>"

definition setTail :: "memPage \<Rightarrow> int \<Rightarrow> Allocator \<Rightarrow> Allocator \<times> unit outcome" where
  "setTail m n a = lift_err (write_file a (write_be n) (i64 (i64 (p_off m + p_size m) - szTail)))"

definition slot :: "memPage \<Rightarrow> int \<Rightarrow> int" where
  "slot m i = i64 (i64 (p_off m + szPage) + shl64 i (i64 (p_rank m + 4)))"

definition newMemPage :: "int \<Rightarrow> memPage" where
  "newMemPage off = \<lparr>p_dirty = False, p_off = off, p_brk = 0, p_prev = 0, p_next = 0,
                     p_rank = 0, p_size = 0, p_used = 0\<rparr>"

definition openPage :: "Allocator \<Rightarrow> int \<Rightarrow> Allocator \<times> memPage outcome" where
  "openPage a off =
     (case ReadAt (a_f a) 48 off of
        (b, Some e) \<Rightarrow> (a, Err e)
      | (b, None) \<Rightarrow>
          (a, Ok \<lparr>p_dirty = False, p_off = off, p_brk = read b, p_prev = read (drop 8 b),
                  p_next = read (drop 16 b), p_rank = read (drop 24 b),
                  p_size = read (drop 32 b), p_used = read (drop 40 b)\<rparr>))"

definition memPage_unlink :: "memPage \<Rightarrow> Allocator \<Rightarrow> Allocator \<times> memPage outcome" where
  "memPage_unlink m a =
     bind (if p_prev m \<noteq> 0
           then bind (openPage a (p_prev m))
                  (\<lambda>a prev. bind (flush_page (setNext prev (p_next m)) a) (\<lambda>a _. (a, Ok ())))
           else (a, Ok ()))
       (\<lambda>a _.
     bind (if p_next m \<noteq> 0
           then bind (openPage a (p_next m))
                  (\<lambda>a next. bind (flush_page (setPrev next (p_prev m)) a) (\<lambda>a _. (a, Ok ())))
           else (a, Ok ()))
       (\<lambda>a _.
     if p_rank m < 0 \<or> ranks \<le> p_rank m then (a, Panic)
     else (if pages a (nat (p_rank m)) = p_off m then setPage a (p_rank m) (p_next m) else a,
           Ok (setNext (setPrev m 0) 0))))"

subsection \<open>Allocator: flush, check, read, insertPage, insertSlot\<close>

definition header_bytes :: "Allocator \<Rightarrow> byte list" where
  "header_bytes a = concat (map (\<lambda>i. write_be (pages a i)) [0..<23])
                    @ concat (map (\<lambda>i. write_be (slots a i)) [0..<7])"

definition flush :: "Allocator \<Rightarrow> Allocator \<times> error option" where
  "flush a =
     (if \<not> dirty a then (a, None)
      else case write_file a (header_bytes a) oFileSkip of
             (a', err) \<Rightarrow> (a'\<lparr>dirty := (err = None)\<rparr>, err))"

text \<open>\<open>return v, a.flush()\<close>\<close>

definition flush_ret :: "'a \<Rightarrow> Allocator \<Rightarrow> Allocator \<times> 'a outcome" where
  "flush_ret v a = (case flush a of (a', None) \<Rightarrow> (a', Ok v) | (a', Some e) \<Rightarrow> (a', Err e))"

definition check :: "int \<Rightarrow> int \<Rightarrow> int \<Rightarrow> int outcome" where
  "check n mn mx = (if n < mn \<or> n > mx then Err CorruptedFile else Ok n)"

definition Allocator_read :: "Allocator \<Rightarrow> int \<Rightarrow> Allocator \<times> int outcome" where
  "Allocator_read a off =
     (case ReadAt (a_f a) 8 off of
        (b, Some e) \<Rightarrow> (a, Err e)
      | (b, None) \<Rightarrow> (a, Ok (read b)))"

definition insertPage :: "Allocator \<Rightarrow> memPage \<Rightarrow> Allocator \<times> memPage outcome" where
  "insertPage a p =
     (if p_prev p \<noteq> 0 \<or> p_next p \<noteq> 0 then (a, Panic)
      else if p_rank p < 0 \<or> ranks \<le> p_rank p then (a, Panic)
      else let p = setNext p (pages a (nat (p_rank p))) in
        bind (if p_next p \<noteq> 0
              then bind (openPage a (p_next p))
                     (\<lambda>a next. bind (flush_page (setPrev next (p_off p)) a) (\<lambda>a _. (a, Ok ())))
              else (a, Ok ()))
          (\<lambda>a _. (setPage a (p_rank p) (p_off p), Ok p)))"

definition insertSlot :: "Allocator \<Rightarrow> int \<Rightarrow> int \<Rightarrow> Allocator \<times> unit outcome" where
  "insertSlot a rnk off =
     (if rnk < 0 \<or> slotRanks \<le> rnk then (a, Panic)
      else let m = memNode_setNext \<lparr>n_dirty = False, n_prev = 0, n_next = 0, n_off = off\<rparr>
                     (slots a (nat rnk)) in
        bind (if n_next m \<noteq> 0
              then bind (openNode a (n_next m)) (\<lambda>a next. flush_node (memNode_setPrev next off) a)
              else (a, Ok ()))
          (\<lambda>a _. flush_node m (setSlot a rnk off)))"

subsection \<open>memPage: freeSlots, split\<close>

text \<open>The loop of \<open>freeSlots\<close>: the first argument counts the rounds left, the
  second is \<open>i\<close>.\<close>

fun freeSlots_loop :: "nat \<Rightarrow> int \<Rightarrow> memPage \<Rightarrow> Allocator \<Rightarrow> Allocator \<times> unit outcome" where
  "freeSlots_loop 0 i m a = (a, Ok ())"
| "freeSlots_loop (Suc k) i m a =
     bind (openNode a (slot m i)) (\<lambda>a n.
     bind (memNode_unlink n (p_rank m) a) (\<lambda>a _.
     bind (flush_node n a) (\<lambda>a _.
     freeSlots_loop k (i64 (i + 1)) m a)))"

definition freeSlots :: "memPage \<Rightarrow> Allocator \<Rightarrow> Allocator \<times> unit outcome" where
  "freeSlots m a =
     (if p_used m \<noteq> 0 then (a, Err InternalError)
      else freeSlots_loop (nat (p_brk m)) 0 m a)"

definition split :: "memPage \<Rightarrow> int \<Rightarrow> Allocator \<Rightarrow> Allocator \<times> int outcome" where
  "split m need a =
     (if p_rank m \<le> maxSharedRank then (a, Err InternalError)
      else let have = p_size m; m = setSize m need in
        bind (a, pageRank (p_size m)) (\<lambda>a r.
        bind (flush_page (setRank m r) a) (\<lambda>a m.
        bind (setTail m 0 a) (\<lambda>a _.
        bind (a, pageRank (i64 (have - need))) (\<lambda>a rn.
        let n = setRank (setSize (newMemPage (i64 (p_off m + p_size m))) (i64 (have - need))) rn;
            a = a\<lparr>npages := i64 (npages a + 1)\<rparr> in
        bind (insertPage a n) (\<lambda>a n.
        bind (flush_page n a) (\<lambda>a n.
        bind (setTail n (p_size n) a) (\<lambda>a _.
        flush_ret (i64 (p_off m + szPage)) a))))))))"

subsection \<open>Allocator: new pages and the ways of Alloc\<close>

definition newPage :: "Allocator \<Rightarrow> int \<Rightarrow> Allocator \<times> memPage outcome" where
  "newPage a sz =
     (let off = i64 (roundup64 (i64 (fsize a - szFile)) pageSize + szFile);
          sz = roundup64 (i64 (i64 (szPage + sz) + szTail)) pageSize in
      bind (a, pageRank sz) (\<lambda>a r.
      let p = setSize (setRank (newMemPage off) r) sz;
          a = a\<lparr>bytes := i64 (bytes a + sz), fsize := i64 (off + sz), npages := i64 (npages a + 1)\<rparr> in
      bind (setTail p 0 a) (\<lambda>a _. (a, Ok p))))"

definition newSharedPage :: "Allocator \<Rightarrow> int \<Rightarrow> Allocator \<times> memPage outcome" where
  "newSharedPage a rnk =
     (let off = i64 (roundup64 (i64 (fsize a - szFile)) pageSize + szFile);
          p = setSize (setRank (newMemPage off) rnk) pageSize;
          a = a\<lparr>bytes := i64 (bytes a + pageSize), fsize := i64 (off + pageSize),
                 npages := i64 (npages a + 1)\<rparr> in
      bind (setTail p 0 a) (\<lambda>a _. (a, Ok p)))"

text \<open>\<open>(off-szFile)&^pageMask + szFile\<close>, the page an offset lies in.\<close>

definition page_of :: "int \<Rightarrow> int" where
  "page_of off = i64 ((i64 (off - szFile) AND NOT pageMask) + szFile)"

definition sbrk :: "Allocator \<Rightarrow> int \<Rightarrow> int \<Rightarrow> Allocator \<times> int outcome" where
  "sbrk a off rnk =
     bind (openPage a off) (\<lambda>a p.
     if rnk \<noteq> p_rank p then (a, Panic)
     else let p = setUsed p (i64 (p_used p + 1)); p = setBrk p (i64 (p_brk p + 1)) in
       bind (if p_brk p = cap rnk then memPage_unlink p a else (a, Ok p)) (\<lambda>a p.
       bind (flush_page p a) (\<lambda>a p.
       flush_ret (slot p (i64 (p_brk p - 1))) a)))"

definition sbrk2 :: "Allocator \<Rightarrow> int \<Rightarrow> int \<Rightarrow> Allocator \<times> int outcome" where
  "sbrk2 a off rnk =
     bind (openPage a off) (\<lambda>a p.
     bind (memPage_unlink p a) (\<lambda>a p.
     bind (insertPage a (setBrk (setUsed (setRank p rnk) 1) 1)) (\<lambda>a p.
     bind (flush_page p a) (\<lambda>a p.
     bind (setTail p 0 a) (\<lambda>a _.
     flush_ret (i64 (p_off p + szPage)) a)))))"

definition allocSlot :: "Allocator \<Rightarrow> int \<Rightarrow> int \<Rightarrow> Allocator \<times> int outcome" where
  "allocSlot a off rnk =
     bind (openNode a off) (\<lambda>a n.
     bind (memNode_unlink n rnk a) (\<lambda>a _.
     bind (openPage a (page_of off)) (\<lambda>a p.
     bind (flush_page (setUsed p (i64 (p_used p + 1))) a) (\<lambda>a p.
     flush_ret off a))))"

definition allocBig2 :: "Allocator \<Rightarrow> int \<Rightarrow> Allocator \<times> int outcome" where
  "allocBig2 a off =
     bind (openPage a off) (\<lambda>a p.
     bind (memPage_unlink p a) (\<lambda>a p.
     bind (flush_page p a) (\<lambda>a p.
     bind (setTail p 0 a) (\<lambda>a _.
     flush_ret (i64 (p_off p + szPage)) a))))"

definition allocMaxRank :: "Allocator \<Rightarrow> memPage \<Rightarrow> int \<Rightarrow> Allocator \<times> int outcome" where
  "allocMaxRank a p need =
     bind (memPage_unlink p a) (\<lambda>a p.
     let rem = i64 (p_size p - need); p = setSize p need in
     bind (a, pageRank (p_size p)) (\<lambda>a r.
     bind (flush_page (setRank p r) a) (\<lambda>a p.
     bind (setTail p 0 a) (\<lambda>a _.
     bind (if rem \<noteq> 0
           then bind (a, pageRank rem) (\<lambda>a rq.
                let q = setRank (setSize (newMemPage (i64 (p_off p + p_size p))) rem) rq;
                    a = a\<lparr>npages := i64 (npages a + 1)\<rparr> in
                bind (insertPage a q) (\<lambda>a q.
                bind (flush_page q a) (\<lambda>a q.
                setTail q (p_size q) a)))
           else (a, Ok ())) (\<lambda>a _.
     flush_ret (i64 (p_off p + szPage)) a)))))"

text \<open>The two loops of \<open>allocBig\<close>. Each returns \<open>Some v\<close> when the source returns
  \<open>v\<close> from inside the loop and \<open>None\<close> when the loop runs out. The first argument
  of the inner loop counts the rounds left of \<open>j < 2\<close>.\<close>

fun allocBig_inner :: "nat \<Rightarrow> int \<Rightarrow> int \<Rightarrow> Allocator \<Rightarrow> Allocator \<times> int option outcome" where
  "allocBig_inner 0 off need a = (a, Ok None)"
| "allocBig_inner (Suc k) off need a =
     (if off = 0 then (a, Ok None)
      else bind (openPage a off) (\<lambda>a p.
           if p_size p \<ge> need then bind (allocMaxRank a p need) (\<lambda>a v. (a, Ok (Some v)))
           else allocBig_inner k (p_next p) need a))"

function allocBig_loop :: "int \<Rightarrow> int \<Rightarrow> Allocator \<Rightarrow> Allocator \<times> int option outcome" where
  "allocBig_loop i need a =
     (if \<not> i < ranks then (a, Ok None)
      else if i < 0 then (a, Panic)
      else let off = pages a (nat i) in
        if off = 0 then allocBig_loop (i + 1) need a
        else if i < ranks - 1 then bind (allocBig2 a off) (\<lambda>a v. (a, Ok (Some v)))
        else bind (allocBig_inner (Suc (Suc 0)) off need a) (\<lambda>a r.
             case r of Some v \<Rightarrow> (a, Ok (Some v)) | None \<Rightarrow> allocBig_loop (i + 1) need a))"
  by pat_completeness auto
termination
  by (relation "measure (\<lambda>(i, need, a). nat (ranks - i))") auto

declare allocBig_loop.simps [simp del]

definition allocBig :: "Allocator \<Rightarrow> int \<Rightarrow> Allocator \<times> int outcome" where
  "allocBig a sz =
     (let need = roundup64 (i64 (i64 (szPage + sz) + szTail)) pageSize in
      bind (a, pageRank need) (\<lambda>a rnk.
      bind (allocBig_loop rnk need a) (\<lambda>a r.
      case r of
        Some v \<Rightarrow> (a, Ok v)
      | None \<Rightarrow>
          bind (newPage a sz) (\<lambda>a p.
          bind (flush_page p a) (\<lambda>a p.
          flush_ret (i64 (p_off p + szPage)) a)))))"

definition Alloc :: "Allocator \<Rightarrow> int \<Rightarrow> Allocator \<times> int outcome" where
  "Alloc a sz =
     (if sz \<le> 0 then (a, Err InvalidArgument)
      else let a = a\<lparr>allocs := i64 (allocs a + 1)\<rparr> in
        if sz > maxSlot then allocBig a sz
        else bind (a, slotRank sz) (\<lambda>a rnk.
          if pages a (nat rnk) \<noteq> 0 then sbrk a (pages a (nat rnk)) rnk
          else if pages a (nat firstPageRank) \<noteq> 0 then sbrk2 a (pages a (nat firstPageRank)) rnk
          else if slots a (nat rnk) \<noteq> 0 then allocSlot a (slots a (nat rnk)) rnk
          else bind (newSharedPage a rnk) (\<lambda>a p.
               bind (insertPage a p) (\<lambda>a p.
               bind (flush_page (setBrk (setUsed p 1) 1) a) (\<lambda>a p.
               flush_ret (slot p 0) a)))))"

lemma i64_id: "in64 n \<Longrightarrow> i64 n = n"
  by (simp add: i64_def in64_def)

lemma in64_i64 [simp]: "in64 (i64 n)"
proof -
  have "0 \<le> (n + 9223372036854775808) mod 18446744073709551616
        \<and> (n + 9223372036854775808) mod 18446744073709551616 < (18446744073709551616 :: int)"
    by simp
  then show ?thesis
    by (simp add: i64_def in64_def)
qed

lemma i64_le: "- (2 ^ 63) \<le> n \<Longrightarrow> i64 n \<le> n"
proof (cases "in64 n")
  case True
  then show ?thesis by (simp add: i64_id)
next
  case False
  assume "- (2 ^ 63) \<le> n"
  with False have "max_int64 < n" by (simp add: in64_def)
  moreover have "i64 n \<le> max_int64" using in64_i64 [of n] by (simp add: in64_def)
  ultimately show ?thesis by linarith
qed

text \<open>The loop of \<open>Calloc\<close>: \<open>lb\<close> is \<open>len(b)\<close>. A negative \<open>size\<close> would make
  \<open>b[:rq]\<close> panic; \<open>Calloc\<close> enters the loop with \<open>0 < size\<close> and
  \<open>lb = min(bufSize, size)\<close>, so the loop is never entered with \<open>lb = 0\<close>.\<close>

function Calloc_loop :: "nat \<Rightarrow> int \<Rightarrow> int \<Rightarrow> Allocator \<Rightarrow> Allocator \<times> unit outcome" where
  "Calloc_loop lb sz dst a =
     (if sz = 0 then (a, Ok ())
      else if sz < 0 \<or> lb = 0 then (a, Panic)
      else let rq = (if sz < int lb then sz else int lb) in
        bind (lift_err (write_file a (replicate (nat rq) 0) dst)) (\<lambda>a _.
        Calloc_loop lb (i64 (sz - rq)) (i64 (dst + rq)) a))"
  by pat_completeness auto
termination
proof (relation "measure (\<lambda>(lb, sz, dst, a). nat sz)", goal_cases)
  case 1
  show ?case by simp
next
  case (2 lb sz dst a rq a' u)
  then have "0 < rq" "rq \<le> sz" by (auto split: if_splits)
  then have "i64 (sz - rq) \<le> sz - rq" by (intro i64_le) simp
  with \<open>0 < rq\<close> \<open>rq \<le> sz\<close> show ?case by simp
qed

declare Calloc_loop.simps [simp del]

definition Calloc :: "Allocator \<Rightarrow> int \<Rightarrow> Allocator \<times> int outcome" where
  "Calloc a sz =
     bind (Alloc a sz) (\<lambda>a off.
     bind (Calloc_loop (nat (min bufSize sz)) sz off a) (\<lambda>a _. (a, Ok off)))"

definition Close :: "Allocator \<Rightarrow> Allocator \<times> unit outcome" where
  "Close a = lift_err (flush a)"

definition usableSize :: "Allocator \<Rightarrow> int \<Rightarrow> Allocator \<times> (int \<times> memPage) outcome" where
  "usableSize a off =
     (if off < szFile + szPage then (a, Err InvalidArgument)
      else bind (openPage a (page_of off)) (\<lambda>a p.
        if p_rank p < 0 \<or> p_rank p \<ge> ranks then (a, Panic)
        else if p_rank p \<le> maxSharedRank then (a, Ok (shl64 1 (i64 (p_rank p + 4)), p))
        else (a, Ok (i64 (i64 (p_size p - szPage) - szTail), p))))"

definition UsableSize :: "Allocator \<Rightarrow> int \<Rightarrow> Allocator \<times> int outcome" where
  "UsableSize a off = bind (usableSize a off) (\<lambda>a (n, p). (a, Ok n))"

subsection \<open>Freeing\<close>

lemma bind_cong [fundef_cong]:
  "r = r' \<Longrightarrow> (\<And>s v. r' = (s, Ok v) \<Longrightarrow> k s v = k' s v) \<Longrightarrow> bind r k = bind r' k'"
  by (auto simp: bind_def split: prod.splits outcome.splits)

lemma bind_simps [simp]:
  "bind (s, Ok v) k = k s v"
  "bind (s, Err e) k = (s, Err e)"
  "bind (s, Panic) k = (s, Panic)"
  by (simp_all add: bind_def)

lemma lift_err_simps [simp]:
  "lift_err (s, None) = (s, Ok ())"
  "lift_err (s, Some e) = (s, Err e)"
  by (simp_all add: lift_err_def)

definition truncate_file :: "Allocator \<Rightarrow> int \<Rightarrow> Allocator \<times> error option" where
  "truncate_file a n = (case Truncate (a_f a) n of (fl, err) \<Rightarrow> (a\<lparr>a_f := fl\<rparr>, err))"

lemma memPage_unlink_off:
  "memPage_unlink p a = (a', Ok p') \<Longrightarrow> p_off p' = p_off p"
  by (auto simp: memPage_unlink_def bind_def setNext_def setPrev_def
           split: if_splits prod.splits outcome.splits)

lemma flush_page_off:
  "flush_page p a = (a', Ok p') \<Longrightarrow> p_off p' = p_off p"
  by (auto simp: flush_page_def memPage_flush_def split: if_splits prod.splits option.splits)

lemma truncate_file_flen:
  "truncate_file a n = (a', None) \<Longrightarrow> flen (a_f a') = n \<and> 0 \<le> n"
  by (auto simp: truncate_file_def Truncate_def set_length_def split: if_splits prod.splits)

lemma Allocator_read_state:
  "Allocator_read a off = (a', r) \<Longrightarrow> a' = a"
  by (auto simp: Allocator_read_def split: prod.splits option.splits)

lemma openPage_Ok:
  "openPage a off = (a', Ok p) \<Longrightarrow> a' = a \<and> p_off p = off \<and> 0 \<le> off \<and> off + 48 \<le> flen (a_f a)"
  by (auto simp: openPage_def ReadAt_def split: prod.splits option.splits if_splits)

function freeLastPage :: "Allocator \<Rightarrow> memPage \<Rightarrow> Allocator \<times> unit outcome" where
  "freeLastPage a p =
     bind (if p_rank p \<le> maxSharedRank then freeSlots p a else (a, Ok ())) (\<lambda>a _.
     bind (memPage_unlink p a) (\<lambda>a p.
     bind (flush_page p a) (\<lambda>a p.
     bind (lift_err (truncate_file a (p_off p))) (\<lambda>a _.
     let a = a\<lparr>fsize := p_off p, npages := i64 (npages a - 1), bytes := i64 (bytes a - p_size p)\<rparr> in
     if p_off p > szFile then
       bind (Allocator_read a (i64 (p_off p - szTail))) (\<lambda>a prevSize.
       if prevSize \<noteq> 0
       then bind (openPage a (i64 (p_off p - prevSize))) (\<lambda>a p. freeLastPage a p)
       else (a, Ok ()))
     else (a, Ok ())))))"
  by pat_completeness auto
termination
proof (relation "measure (\<lambda>(a, p). nat (p_off p))", goal_cases)
  case 1
  show ?case by simp
next
  case (2 a p a1 u1 a2 p2 a3 p3 a4 u4 a5 a6 prevSize a7 p7)
  have off3: "p_off p3 = p_off p"
    using 2 by (metis memPage_unlink_off flush_page_off)
  have len4: "flen (a_f a4) = p_off p3 \<and> 0 \<le> p_off p3"
    using 2(4) by (auto simp: lift_err_def dest!: truncate_file_flen split: prod.splits option.splits)
  have "a6 = a5" using 2(7) by (rule Allocator_read_state)
  moreover have "flen (a_f a5) = flen (a_f a4)" using 2(5) by simp
  ultimately have "p_off p7 + 48 \<le> p_off p3 \<and> 0 \<le> p_off p7"
    using openPage_Ok [OF 2(9)] len4 by auto
  then show ?case using off3 by simp
qed

declare freeLastPage.simps [simp del]

definition freePage :: "Allocator \<Rightarrow> memPage \<Rightarrow> Allocator \<times> unit outcome" where
  "freePage a p =
     (if p_used p \<noteq> 0 then (a, Err InternalError)
      else if i64 (p_off p + p_size p) = fsize a then freeLastPage a p
      else
        bind (if p_rank p \<le> maxSharedRank
              then bind (freeSlots p a) (\<lambda>a _.
                   bind (memPage_unlink p a) (\<lambda>a p.
                   (a, Ok (setRank (setBrk p 0) firstPageRank))))
              else (a, Ok p)) (\<lambda>a p.
        bind (insertPage a p) (\<lambda>a p.
        bind (flush_page p a) (\<lambda>a p.
        setTail p (p_size p) a))))"

definition Free :: "Allocator \<Rightarrow> int \<Rightarrow> Allocator \<times> unit outcome" where
  "Free a off =
     (if off < szFile + szPage then (a, Err InvalidArgument)
      else let a = a\<lparr>allocs := i64 (allocs a - 1)\<rparr> in
        bind (openPage a (page_of off)) (\<lambda>a p.
        if p_rank p > maxSharedRank
        then bind (freePage a p) (\<lambda>a _. flush_ret () a)
        else let p = setUsed p (i64 (p_used p - 1)) in
          bind (insertSlot a (p_rank p) off) (\<lambda>a _.
          if p_used p = 0
          then bind (freePage a p) (\<lambda>a _. flush_ret () a)
          else bind (flush_page p a) (\<lambda>a p. flush_ret () a))))"

subsection \<open>Realloc\<close>

text \<open>The first part of \<open>Realloc\<close>, for \<open>oldSize >= size\<close>: \<open>Some v\<close> when the source
  returns \<open>v\<close> there, \<open>None\<close> when it goes on to move the block.\<close>

definition Realloc_fit :: "Allocator \<Rightarrow> int \<Rightarrow> int \<Rightarrow> int \<Rightarrow> memPage \<Rightarrow> Allocator \<times> int option outcome" where
  "Realloc_fit a off sz oldSize p =
     (if oldSize \<ge> sz then
        bind (a, rank sz) (\<lambda>a newRank.
        if p_rank p = newRank then (a, Ok (Some off))
        else if newRank > maxSharedRank then
          (let need = roundup64 (i64 (i64 (szPage + sz) + szTail)) pageSize in
           if p_size p > need then bind (split p need a) (\<lambda>a v. (a, Ok (Some v)))
           else (a, Ok None))
        else (a, Ok None))
      else (a, Ok None))"

lemma write_file_Ok:
  "write_file a b off = (a', None) \<Longrightarrow> b \<noteq> [] \<Longrightarrow> 0 \<le> off \<and> off + int (length b) \<le> max_int64"
  by (auto simp: write_file_def WriteAt_def split: if_splits prod.splits)

text \<open>The copy loop of \<open>Realloc\<close>; \<open>lb\<close> is \<open>len(b)\<close>. \<open>Some v\<close> when the source
  returns \<open>v\<close> with a nil error from inside the loop, \<open>None\<close> when the loop ends.\<close>

function Realloc_loop :: "nat \<Rightarrow> int \<Rightarrow> int \<Rightarrow> int \<Rightarrow> Allocator \<Rightarrow> Allocator \<times> int option outcome" where
  "Realloc_loop lb rem src dst a =
     (if rem = 0 then (a, Ok None)
      else case ReadAt (a_f a) lb src of (b, rerr) \<Rightarrow>
        if b = [] then (a, case rerr of Some e \<Rightarrow> Err e | None \<Rightarrow> Ok (Some (- 1)))
        else bind (lift_err (write_file a b dst)) (\<lambda>a _.
             Realloc_loop lb (i64 (rem - int (length b))) (i64 (src + int (length b)))
               (i64 (dst + int (length b))) a))"
  by pat_completeness auto
termination
proof (relation "measure (\<lambda>(lb, rem, src, dst, a). nat (2 ^ 63 - dst))", goal_cases)
  case 1
  show ?case by simp
next
  case (2 lb rem src dst a b rerr a' u)
  from 2(4) have "write_file a b dst = (a', None)"
    by (auto simp: lift_err_def split: prod.splits option.splits)
  from write_file_Ok [OF this 2(3)]
  have bnd: "0 \<le> dst" "dst + int (length b) \<le> max_int64" by simp_all
  then have "i64 (dst + int (length b)) = dst + int (length b)"
    by (intro i64_id) (simp add: in64_def)
  moreover have "0 < int (length b)" using 2(3) by simp
  ultimately show ?case using bnd by simp
qed

declare Realloc_loop.simps [simp del]

text \<open>\<open>buffer.Get\<close> (an imported package) of a negative size panics.\<close>

definition Realloc :: "Allocator \<Rightarrow> int \<Rightarrow> int \<Rightarrow> Allocator \<times> int outcome" where
  "Realloc a off sz =
     (if off < szFile + szPage then (a, Err InvalidArgument)
      else if sz = 0 then bind (Free a off) (\<lambda>a _. (a, Ok (- 1)))
      else bind (usableSize a off) (\<lambda>a (oldSize, p).
        bind (Realloc_fit a off sz oldSize p) (\<lambda>a r.
        case r of
          Some v \<Rightarrow> (a, Ok v)
        | None \<Rightarrow>
            bind (Alloc a sz) (\<lambda>a newOff.
            let rem = min oldSize sz in
            if rem < 0 then (a, Panic)
            else bind (Realloc_loop (nat (min bufSize rem)) rem off newOff a) (\<lambda>a r.
              case r of
                Some v \<Rightarrow> (a, Ok v)
              | None \<Rightarrow> bind (Free a off) (\<lambda>a _. (a, Ok newOff)))))))"

subsection \<open>NewAllocator\<close>

text \<open>The two loops of \<open>NewAllocator\<close> that decode and check the list heads:
  \<open>base\<close> is the offset of the array in \<open>a.buf\<close>, the list holds the indices still to
  do.\<close>

fun load_heads :: "byte list \<Rightarrow> nat \<Rightarrow> int \<Rightarrow> nat list \<Rightarrow> (nat \<Rightarrow> int) \<Rightarrow> (nat \<Rightarrow> int) outcome" where
  "load_heads buf base mx [] arr = Ok arr"
| "load_heads buf base mx (i # is) arr =
     (case check (read (drop (base + 8 * i) buf)) 0 mx of
        Ok v \<Rightarrow> load_heads buf base mx is (arr(i := v))
      | Err e \<Rightarrow> Err e
      | Panic \<Rightarrow> Panic)"

text \<open>\<open>f.Stat()\<close> is taken to succeed with the length of the file.\<close>

definition NewAllocator :: "File \<Rightarrow> Allocator outcome" where
  "NewAllocator fl =
     (let a = \<lparr>dirty = False, a_f = fl, pages = (\<lambda>_. 0), slots = (\<lambda>_. 0), fsize = flen fl,
               allocs = 0, bytes = 0, npages = 0\<rparr> in
      if fsize a \<le> oFileSkip then
        (case WriteAt fl (replicate 240 0) oFileSkip of
           (fl', Some e) \<Rightarrow> Err e
         | (fl', None) \<Rightarrow> Ok (a\<lparr>a_f := fl'\<rparr>))
      else
        (case ReadAt fl 240 oFileSkip of
           (buf, Some e) \<Rightarrow> Err e
         | (buf, None) \<Rightarrow>
             let mx = i64 (fsize a - szPage) in
             (case load_heads buf 0 mx [0..<23] (pages a) of
                Err e \<Rightarrow> Err e
              | Panic \<Rightarrow> Panic
              | Ok pg \<Rightarrow>
                  (case load_heads buf 184 mx [0..<7] (slots a) of
                     Err e \<Rightarrow> Err e
                   | Panic \<Rightarrow> Panic
                   | Ok sl \<Rightarrow> Ok (a\<lparr>pages := pg, slots := sl\<rparr>)))))"

section \<open>The codec: reading back what was written\<close>

lemma i64_mod: "i64 x mod 2 ^ 64 = x mod 2 ^ 64"
proof -
  have "i64 x = (x + 2 ^ 63) mod 2 ^ 64 - 2 ^ 63" by (simp add: i64_def)
  then have "i64 x mod 2 ^ 64 = ((x + 2 ^ 63) mod 2 ^ 64 - 2 ^ 63) mod 2 ^ 64" by simp
  also have "\<dots> = (x + 2 ^ 63 - 2 ^ 63) mod 2 ^ 64" by (rule mod_diff_left_eq)
  finally show ?thesis by simp
qed

lemma i64_unique: "in64 n \<Longrightarrow> n mod 2 ^ 64 = v mod 2 ^ 64 \<Longrightarrow> n = i64 v"
proof -
  assume n: "in64 n" and e: "n mod 2 ^ 64 = v mod 2 ^ 64"
  have "(n + 2 ^ 63) mod 2 ^ 64 = (v + 2 ^ 63) mod 2 ^ 64"
    using e by (metis mod_add_left_eq)
  then have "i64 n = i64 v" by (simp add: i64_def)
  with n show ?thesis by (simp add: i64_id)
qed

lemma or_byte: "x mod 256 = 0 \<Longrightarrow> 0 \<le> y \<Longrightarrow> y < 256 \<Longrightarrow> x OR y = x + (y :: int)"
proof -
  assume x: "x mod 256 = 0" and y: "0 \<le> y" "y < 256"
  have xa: "take_bit 8 x = 0" using x by (simp add: take_bit_eq_mod)
  have ya: "take_bit 8 y = y" using y by (simp add: take_bit_eq_mod)
  have "x AND y = 0"
  proof (rule bit_eqI)
    fix n
    have "\<not> (n < 8 \<and> bit x n)"
      using xa bit_take_bit_iff [of 8 x n] by simp
    moreover have "bit y n \<longleftrightarrow> n < 8 \<and> bit y n"
      using ya bit_take_bit_iff [of 8 y n] by simp
    ultimately show "bit (x AND y) n = bit (0 :: int) n"
      by (auto simp: bit_and_iff)
  qed
  then show ?thesis by (simp add: disjunctive_add_eq_or)
qed

lemma i64_shift_mod: "i64 (push_bit 8 n) mod 256 = 0"
proof -
  have "(256 :: int) dvd 2 ^ 64" by simp
  then have "i64 (push_bit 8 n) mod 256 = (i64 (push_bit 8 n) mod 2 ^ 64) mod 256"
    by (simp add: mod_mod_cancel)
  also have "\<dots> = (push_bit 8 n mod 2 ^ 64) mod 256" by (simp only: i64_mod)
  also have "\<dots> = push_bit 8 n mod 256" by (simp add: mod_mod_cancel)
  also have "\<dots> = 0" by (simp add: push_bit_eq_mult)
  finally show ?thesis .
qed

lemma read_step: "i64 (push_bit 8 n) OR uint (v :: byte) = i64 (push_bit 8 n) + uint v"
proof (rule or_byte)
  show "i64 (push_bit 8 n) mod 256 = 0" by (rule i64_shift_mod)
  show "0 \<le> uint v" by simp
  show "uint v < 256" using uint_bounded [of v] by simp
qed

lemma byte_of_mod64: "(x mod 2 ^ 64) div 2 ^ 56 = (x div 2 ^ 56) mod (256 :: int)"
  using drop_bit_take_bit [of 56 64 x]
  by (simp add: drop_bit_eq_div take_bit_eq_mod)

lemma uint_byte_of:
  "uint (word_of_int (drop_bit 56 (i64 (push_bit k v))) :: byte) = drop_bit 56 (push_bit k v) mod 256"
proof -
  have "uint (word_of_int (drop_bit 56 (i64 (push_bit k v))) :: byte) = drop_bit 56 (i64 (push_bit k v)) mod 256"
    by (simp add: uint_word_of_int take_bit_eq_mod)
  also have "\<dots> = (i64 (push_bit k v) mod 2 ^ 64) div 2 ^ 56"
    by (simp only: byte_of_mod64 drop_bit_eq_div)
  also have "\<dots> = (push_bit k v mod 2 ^ 64) div 2 ^ 56" by (simp only: i64_mod)
  also have "\<dots> = drop_bit 56 (push_bit k v) mod 256"
    by (simp only: byte_of_mod64 drop_bit_eq_div)
  finally show ?thesis .
qed

lemma in64_read_step: "in64 (i64 (push_bit 8 n) + uint (v :: byte))"
proof -
  have m: "i64 (push_bit 8 n) mod 256 = 0" by (rule i64_shift_mod)
  have r: "- 9223372036854775808 \<le> i64 (push_bit 8 n)" "i64 (push_bit 8 n) \<le> 9223372036854775807"
    using in64_i64 [of "push_bit 8 n"] by (simp_all add: in64_def)
  have "i64 (push_bit 8 n) \<le> 9223372036854775552"
    using m r(2) by presburger
  moreover obtain u where u: "u = uint v" "0 \<le> u" "u < 256"
    using uint_bounded [of v] by simp
  ultimately have "- 9223372036854775808 \<le> i64 (push_bit 8 n) + u
                   \<and> i64 (push_bit 8 n) + u \<le> 9223372036854775807"
    using r(1) by linarith
  then show ?thesis using u(1) by (simp add: in64_def)
qed

lemma i64_shift_add_mod:
  "(i64 (push_bit 8 a) + b) mod 2 ^ 64 = (256 * (a mod 2 ^ 64) + b) mod 2 ^ 64"
proof -
  have "(i64 (push_bit 8 a) + b) mod 2 ^ 64 = (i64 (push_bit 8 a) mod 2 ^ 64 + b) mod 2 ^ 64"
    by (simp only: mod_add_left_eq)
  also have "\<dots> = (push_bit 8 a mod 2 ^ 64 + b) mod 2 ^ 64"
    by (simp only: i64_mod)
  also have "\<dots> = (push_bit 8 a + b) mod 2 ^ 64"
    by (simp only: mod_add_left_eq)
  also have "\<dots> = (256 * a + b) mod 2 ^ 64"
    by (simp add: push_bit_eq_mult mult.commute)
  also have "\<dots> = (256 * (a mod 2 ^ 64) + b) mod 2 ^ 64"
    by (metis mod_add_left_eq mod_mult_right_eq)
  finally show ?thesis .
qed

definition be_byte :: "int \<Rightarrow> nat \<Rightarrow> byte" where
  "be_byte v i = word_of_int (drop_bit 56 (i64 (push_bit (8 * i) v)))"

lemma uint_be_byte: "i < 8 \<Longrightarrow> uint (be_byte v i) = take_bit 8 (drop_bit (56 - 8 * i) v)"
proof -
  assume "i < 8"
  then have "drop_bit 56 (push_bit (8 * i) v) = drop_bit (56 - 8 * i) v"
    by (simp add: drop_bit_push_bit)
  then show ?thesis
    by (simp add: be_byte_def uint_byte_of take_bit_eq_mod)
qed

lemma digit_step: "256 * take_bit m (drop_bit 8 y) + take_bit 8 y = take_bit (m + 8) (y :: int)"
proof -
  have "y mod (256 * 2 ^ m) = 256 * (y div 256 mod 2 ^ m) + y mod 256"
    by (rule zmod_zmult2_eq) simp
  then show ?thesis
    by (simp add: take_bit_eq_mod drop_bit_eq_div power_add mult.commute)
qed

lemma read_fold:
  "k \<le> 8 \<Longrightarrow>
     foldl (\<lambda>n b. i64 (push_bit 8 n) OR uint b) 0 (map (be_byte v) [0..<k]) mod 2 ^ 64
       = take_bit (8 * k) (drop_bit (64 - 8 * k) v)"
proof (induction k)
  case 0
  then show ?case by simp
next
  case (Suc k)
  let ?acc = "foldl (\<lambda>n b. i64 (push_bit 8 n) OR uint b) 0 (map (be_byte v) [0..<k])"
  let ?y = "drop_bit (56 - 8 * k) v"
  from Suc have k: "k < 8" and IH: "?acc mod 2 ^ 64 = take_bit (8 * k) (drop_bit (64 - 8 * k) v)"
    by simp_all
  have d8: "drop_bit (64 - 8 * k) v = drop_bit 8 ?y"
    using k by (simp add: drop_bit_drop_bit)
  have "(i64 (push_bit 8 ?acc) + uint (be_byte v k)) mod 2 ^ 64
          = (256 * (?acc mod 2 ^ 64) + uint (be_byte v k)) mod 2 ^ 64"
    by (rule i64_shift_add_mod)
  also have "\<dots> = (256 * take_bit (8 * k) (drop_bit 8 ?y) + take_bit 8 ?y) mod 2 ^ 64"
    using k by (simp only: IH d8 uint_be_byte)
  also have "\<dots> = take_bit (8 * k + 8) ?y mod 2 ^ 64"
    by (simp only: digit_step)
  also have "\<dots> = take_bit (8 * k + 8) ?y"
  proof -
    have "min 64 (8 * k + 8) = 8 * k + 8" using k by simp
    then have "take_bit 64 (take_bit (8 * k + 8) ?y) = take_bit (8 * k + 8) ?y"
      by (simp only: take_bit_take_bit)
    then show ?thesis by (simp add: take_bit_eq_mod)
  qed
  finally have "(i64 (push_bit 8 ?acc) + uint (be_byte v k)) mod 2 ^ 64
                  = take_bit (8 * Suc k) (drop_bit (64 - 8 * Suc k) v)"
    using k by (simp add: add.commute)
  then show ?case
    by (simp add: read_step)
qed

lemma upt_8: "[0..<8] = [0, 1, 2, 3, 4, 5, 6, 7]"
  by code_simp

lemma write_be_eq: "write_be v = map (be_byte v) [0..<8]"
  by (simp add: write_be_def be_byte_def upt_8)

lemma length_write_be [simp]: "length (write_be v) = 8"
  by (simp add: write_be_def)

lemma read_write_be: "read (write_be v) = i64 v"
proof -
  let ?f = "\<lambda>n b. i64 (push_bit 8 n) OR uint (b :: byte)"
  have r: "read (write_be v) = foldl ?f 0 (map (be_byte v) [0..<8])"
    by (simp add: read_def write_be_eq)
  have "[0..<8] = [0..<7] @ [7]" by (simp add: upt_8) code_simp
  then have "foldl ?f 0 (map (be_byte v) [0..<8])
               = i64 (push_bit 8 (foldl ?f 0 (map (be_byte v) [0..<7]))) + uint (be_byte v 7)"
    by (simp add: read_step)
  then have "in64 (read (write_be v))"
    using r by (simp add: in64_read_step)
  moreover have "read (write_be v) mod 2 ^ 64 = v mod 2 ^ 64"
    using read_fold [of 8 v] r by (simp add: take_bit_eq_mod)
  ultimately show ?thesis by (rule i64_unique)
qed

section \<open>The store at the level of 64-bit fields\<close>

lemma in64_read [simp]: "in64 (read b)"
proof -
  have "in64 (foldl (\<lambda>n v. i64 (push_bit 8 n) OR uint v) 0 bs)" for bs :: "byte list"
    by (induction bs rule: rev_induct) (simp_all add: in64_def [of 0] read_step in64_read_step)
  then show ?thesis by (simp add: read_def)
qed

definition rd64 :: "File \<Rightarrow> int \<Rightarrow> int" where
  "rd64 fl off = read (map (\<lambda>k. data fl (off + int k)) [0..<8])"

lemma in64_rd64 [simp]: "in64 (rd64 fl off)"
  by (simp add: rd64_def)

lemma read_drop_map:
  "j + 8 \<le> n \<Longrightarrow> read (drop j (map (\<lambda>k. data fl (off + int k)) [0..<n])) = rd64 fl (off + int j)"
proof -
  assume jn: "j + 8 \<le> n"
  have "take 8 (drop j [0..<n]) = [j..<j + 8]"
    using jn by (simp add: take_upt)
  also have "\<dots> = map (\<lambda>k. k + j) [0..<8]"
    by (simp add: map_add_upt add.commute)
  finally have "take 8 (drop j (map (\<lambda>k. data fl (off + int k)) [0..<n]))
                  = map (\<lambda>k. data fl (off + int j + int k)) [0..<8]"
    by (simp add: drop_map take_map o_def ac_simps del: upt_Suc)
  then show ?thesis
    by (simp add: read_def rd64_def)
qed

lemma read_map0:
  "8 \<le> n \<Longrightarrow> read (map (\<lambda>k. data fl (off + int k)) [0..<n]) = rd64 fl off"
  using read_drop_map [of 0 n fl off] by simp

definition readable :: "File \<Rightarrow> int \<Rightarrow> int \<Rightarrow> bool" where
  "readable fl off n \<longleftrightarrow> 0 \<le> off \<and> off + n \<le> flen fl"

lemma ReadAt_readable:
  "readable fl off (int n) \<Longrightarrow> ReadAt fl n off = (map (\<lambda>k. data fl (off + int k)) [0..<n], None)"
  by (simp add: ReadAt_def readable_def)

lemma ReadAt_not_readable:
  "\<not> readable fl off (int n) \<Longrightarrow> snd (ReadAt fl n off) = Some (if off < 0 then IOError else EOF)"
  by (simp add: ReadAt_def readable_def)

lemma openPage_eq:
  "openPage a off =
     (if readable (a_f a) off 48
      then (a, Ok \<lparr>p_dirty = False, p_off = off, p_brk = rd64 (a_f a) off,
                   p_prev = rd64 (a_f a) (off + 8), p_next = rd64 (a_f a) (off + 16),
                   p_rank = rd64 (a_f a) (off + 24), p_size = rd64 (a_f a) (off + 32),
                   p_used = rd64 (a_f a) (off + 40)\<rparr>)
      else (a, Err (if off < 0 then IOError else EOF)))"
proof (cases "readable (a_f a) off 48")
  case True
  then have "ReadAt (a_f a) 48 off = (map (\<lambda>k. data (a_f a) (off + int k)) [0..<48], None)"
    using ReadAt_readable [of "a_f a" off 48] by simp
  with True show ?thesis
    using read_drop_map [of 8 48 "a_f a" off] read_drop_map [of 16 48 "a_f a" off]
      read_drop_map [of 24 48 "a_f a" off] read_drop_map [of 32 48 "a_f a" off]
      read_drop_map [of 40 48 "a_f a" off] read_map0 [of 48 "a_f a" off]
    by (simp add: openPage_def)
next
  case False
  then have "snd (ReadAt (a_f a) 48 off) = Some (if off < 0 then IOError else EOF)"
    using ReadAt_not_readable [of "a_f a" off 48] by simp
  with False show ?thesis
    by (cases "ReadAt (a_f a) 48 off") (simp add: openPage_def)
qed

lemma openNode_eq:
  "openNode a off =
     (if readable (a_f a) off 16
      then (a, Ok \<lparr>n_dirty = False, n_prev = rd64 (a_f a) off, n_next = rd64 (a_f a) (off + 8),
                   n_off = off\<rparr>)
      else (a, Err (if off < 0 then IOError else EOF)))"
proof (cases "readable (a_f a) off 16")
  case True
  then have "ReadAt (a_f a) 16 off = (map (\<lambda>k. data (a_f a) (off + int k)) [0..<16], None)"
    using ReadAt_readable [of "a_f a" off 16] by simp
  with True show ?thesis
    using read_drop_map [of 8 16 "a_f a" off] read_map0 [of 16 "a_f a" off]
    by (simp add: openNode_def)
next
  case False
  then have "snd (ReadAt (a_f a) 16 off) = Some (if off < 0 then IOError else EOF)"
    using ReadAt_not_readable [of "a_f a" off 16] by simp
  with False show ?thesis
    by (cases "ReadAt (a_f a) 16 off") (simp add: openNode_def)
qed

lemma Allocator_read_eq:
  "Allocator_read a off =
     (if readable (a_f a) off 8 then (a, Ok (rd64 (a_f a) off))
      else (a, Err (if off < 0 then IOError else EOF)))"
proof (cases "readable (a_f a) off 8")
  case True
  then have "ReadAt (a_f a) 8 off = (map (\<lambda>k. data (a_f a) (off + int k)) [0..<8], None)"
    using ReadAt_readable [of "a_f a" off 8] by simp
  with True show ?thesis
    using read_map0 [of 8 "a_f a" off] by (simp add: Allocator_read_def)
next
  case False
  then have "snd (ReadAt (a_f a) 8 off) = Some (if off < 0 then IOError else EOF)"
    using ReadAt_not_readable [of "a_f a" off 8] by simp
  with False show ?thesis
    by (cases "ReadAt (a_f a) 8 off") (simp add: Allocator_read_def)
qed

lemma flen_store_bytes [simp]: "flen (store_bytes fl off b) = max (flen fl) (off + int (length b))"
  by (simp add: store_bytes_def)

lemma broken_store_bytes [simp]: "broken (store_bytes fl off b) = broken fl"
  by (simp add: store_bytes_def)

lemma data_store_bytes:
  "data (store_bytes fl off b) i =
     (if off \<le> i \<and> i < off + int (length b) then b ! nat (i - off)
      else if flen fl \<le> i then 0 else data fl i)"
  by (simp add: store_bytes_def)

lemma flen_set_length [simp]: "flen (set_length fl n) = n"
  by (simp add: set_length_def)

lemma broken_set_length [simp]: "broken (set_length fl n) = broken fl"
  by (simp add: set_length_def)

lemma rd64_cong:
  assumes "\<And>k. k < 8 \<Longrightarrow> data fl (off + int k) = data fl' (off' + int k)"
  shows "rd64 fl off = rd64 fl' off'"
proof -
  have "map (\<lambda>k. data fl (off + int k)) [0..<8] = map (\<lambda>k. data fl' (off' + int k)) [0..<8]"
    by (rule map_cong) (simp_all add: assms)
  then show ?thesis by (simp only: rd64_def)
qed

lemma rd64_set_length: "i + 8 \<le> flen fl \<Longrightarrow> rd64 (set_length fl n) i = rd64 fl i"
  by (rule rd64_cong) (simp add: set_length_def)

lemma rd64_store_bytes_miss:
  "i + 8 \<le> off \<or> off + int (length b) \<le> i \<Longrightarrow> i + 8 \<le> flen fl \<Longrightarrow>
     rd64 (store_bytes fl off b) i = rd64 fl i"
  by (rule rd64_cong) (auto simp: data_store_bytes)

lemma read_zeros: "read (map (\<lambda>k. 0) [0..<8]) = 0"
  by (simp add: read_def upt_8 i64_def)

lemma rd64_store_bytes_gap:
  "i + 8 \<le> off \<or> off + int (length b) \<le> i \<Longrightarrow> flen fl \<le> i \<Longrightarrow>
     rd64 (store_bytes fl off b) i = 0"
proof -
  assume d: "i + 8 \<le> off \<or> off + int (length b) \<le> i" and g: "flen fl \<le> i"
  have "map (\<lambda>k. data (store_bytes fl off b) (i + int k)) [0..<8] = map (\<lambda>k. 0) [0..<8]"
    using d g by (intro map_cong) (auto simp: data_store_bytes)
  then show ?thesis by (simp only: rd64_def read_zeros)
qed

definition store64 :: "File \<Rightarrow> int \<Rightarrow> int list \<Rightarrow> File" where
  "store64 fl off vs = store_bytes fl off (concat (map write_be vs))"

lemma length_concat_write_be [simp]: "length (concat (map write_be vs)) = 8 * length vs"
  by (induction vs) simp_all

lemma take_drop_concat_write_be:
  "j < length vs \<Longrightarrow> take 8 (drop (8 * j) (concat (map write_be vs))) = write_be (vs ! j)"
proof (induction vs arbitrary: j)
  case Nil
  then show ?case by simp
next
  case (Cons v vs)
  show ?case
  proof (cases j)
    case 0
    then show ?thesis by simp
  next
    case (Suc j')
    with Cons.prems have "j' < length vs" by simp
    from Cons.IH [OF this] Suc show ?thesis by simp
  qed
qed

lemma flen_store64 [simp]: "flen (store64 fl off vs) = max (flen fl) (off + 8 * int (length vs))"
  by (simp add: store64_def)

lemma broken_store64 [simp]: "broken (store64 fl off vs) = broken fl"
  by (simp add: store64_def)

lemma rd64_store64_miss:
  "i + 8 \<le> off \<or> off + 8 * int (length vs) \<le> i \<Longrightarrow> i + 8 \<le> flen fl \<Longrightarrow>
     rd64 (store64 fl off vs) i = rd64 fl i"
  by (simp add: store64_def rd64_store_bytes_miss)

lemma rd64_store64_gap:
  "i + 8 \<le> off \<or> off + 8 * int (length vs) \<le> i \<Longrightarrow> flen fl \<le> i \<Longrightarrow>
     rd64 (store64 fl off vs) i = 0"
  by (simp add: store64_def rd64_store_bytes_gap)

lemma rd64_store64_nth:
  assumes "j < length vs"
  shows "rd64 (store64 fl off vs) (off + 8 * int j) = i64 (vs ! j)"
proof -
  let ?b = "concat (map write_be vs)"
  have len: "8 * j + 8 \<le> length ?b" using assms by simp
  have "map (\<lambda>k. data (store_bytes fl off ?b) (off + 8 * int j + int k)) [0..<8]
          = map (\<lambda>k. ?b ! (8 * j + k)) [0..<8]"
  proof (intro map_cong refl)
    fix k assume "k \<in> set [0..<8]"
    then have k: "k < 8" by simp
    then have "nat (8 * int j + int k) = 8 * j + k" by (simp add: nat_add_distrib nat_mult_distrib)
    moreover have "8 * int j + int k < 8 * int (length vs)" using assms k by simp
    ultimately show "data (store_bytes fl off ?b) (off + 8 * int j + int k) = ?b ! (8 * j + k)"
      by (simp add: data_store_bytes)
  qed
  also have "\<dots> = take 8 (drop (8 * j) ?b)"
  proof (rule nth_equalityI)
    show "length (map (\<lambda>k. ?b ! (8 * j + k)) [0..<8]) = length (take 8 (drop (8 * j) ?b))"
      using len by simp
  next
    fix i assume "i < length (map (\<lambda>k. ?b ! (8 * j + k)) [0..<8])"
    then have "i < 8" by simp
    then show "map (\<lambda>k. ?b ! (8 * j + k)) [0..<8] ! i = take 8 (drop (8 * j) ?b) ! i"
      using len by (simp del: upt_Suc)
  qed
  also have "\<dots> = write_be (vs ! j)"
    using assms by (rule take_drop_concat_write_be)
  finally show ?thesis
    by (simp add: rd64_def store64_def read_write_be)
qed

lemma rd64_store64_hit:
  "off \<le> i \<Longrightarrow> i + 8 \<le> off + 8 * int (length vs) \<Longrightarrow> (i - off) mod 8 = 0 \<Longrightarrow>
     rd64 (store64 fl off vs) i = i64 (vs ! nat ((i - off) div 8))"
proof -
  assume a: "off \<le> i" "i + 8 \<le> off + 8 * int (length vs)" "(i - off) mod 8 = 0"
  define j where "j = nat ((i - off) div 8)"
  have "8 * ((i - off) div 8) = i - off"
    using a(3) by (simp add: mod_eq_0_iff_dvd)
  moreover have "0 \<le> (i - off) div 8"
    using a(1) by (simp add: pos_imp_zdiv_nonneg_iff)
  ultimately have i: "i = off + 8 * int j"
    by (simp add: j_def)
  then have "j < length vs" using a(2) by simp
  then have "rd64 (store64 fl off vs) (off + 8 * int j) = i64 (vs ! j)"
    by (rule rd64_store64_nth)
  then have "rd64 (store64 fl off vs) i = i64 (vs ! j)"
    using i by simp
  then show ?thesis by (simp only: j_def)
qed

lemma WriteAt_eq:
  "b \<noteq> [] \<Longrightarrow>
   WriteAt fl b off =
     (if broken fl \<or> off < 0 \<or> max_int64 < off + int (length b) then (fl, Some IOError)
      else (store_bytes fl off b, None))"
  by (simp add: WriteAt_def)

lemma write_file_page_bytes:
  "write_file a (page_bytes m) off =
     (if broken (a_f a) \<or> off < 0 \<or> max_int64 < off + 48 then (a, Some IOError)
      else (a\<lparr>a_f := store64 (a_f a) off
                 [p_brk m, p_prev m, p_next m, p_rank m, p_size m, p_used m]\<rparr>, None))"
proof -
  have "page_bytes m \<noteq> []" by (simp add: page_bytes_def write_be_def)
  moreover have "length (page_bytes m) = 48" by (simp add: page_bytes_def)
  ultimately show ?thesis
    by (simp add: write_file_def WriteAt_eq store64_def) (simp add: page_bytes_def)
qed

lemma write_file_node_bytes:
  "write_file a (node_bytes m) off =
     (if broken (a_f a) \<or> off < 0 \<or> max_int64 < off + 16 then (a, Some IOError)
      else (a\<lparr>a_f := store64 (a_f a) off [n_prev m, n_next m]\<rparr>, None))"
proof -
  have "node_bytes m \<noteq> []" by (simp add: node_bytes_def write_be_def)
  moreover have "length (node_bytes m) = 16" by (simp add: node_bytes_def)
  ultimately show ?thesis
    by (simp add: write_file_def WriteAt_eq store64_def) (simp add: node_bytes_def)
qed

lemma write_file_write_be:
  "write_file a (write_be n) off =
     (if broken (a_f a) \<or> off < 0 \<or> max_int64 < off + 8 then (a, Some IOError)
      else (a\<lparr>a_f := store64 (a_f a) off [n]\<rparr>, None))"
proof -
  have "write_be n \<noteq> []" by (simp add: write_be_def)
  then show ?thesis
    by (simp add: write_file_def WriteAt_eq store64_def)
qed

definition header_values :: "Allocator \<Rightarrow> int list" where
  "header_values a = map (pages a) [0..<23] @ map (slots a) [0..<7]"

lemma write_file_header_bytes:
  "write_file a (header_bytes a') off =
     (if broken (a_f a) \<or> off < 0 \<or> max_int64 < off + 240 then (a, Some IOError)
      else (a\<lparr>a_f := store64 (a_f a) off (header_values a')\<rparr>, None))"
proof -
  have e: "header_bytes a' = concat (map write_be (header_values a'))"
    by (simp add: header_bytes_def header_values_def o_def del: upt_Suc)
  have "length (header_bytes a') = 240" by (simp only: e length_concat_write_be) (simp add: header_values_def)
  moreover from this have "header_bytes a' \<noteq> []" by auto
  ultimately show ?thesis
    by (simp add: write_file_def WriteAt_eq store64_def) (simp add: e)
qed

lemma truncate_file_eq:
  "truncate_file a n =
     (if broken (a_f a) \<or> n < 0 then (a, Some IOError)
      else (a\<lparr>a_f := set_length (a_f a) n\<rparr>, None))"
  by (simp add: truncate_file_def Truncate_def)

section \<open>Running the allocator on concrete states\<close>

text \<open>
  The rewrite rules that run the allocator on a concrete state: the definitions of its
  functions, \<open>i64\<close> on literals only, and the store at the level of 64-bit fields.
\<close>

lemma i64_numerals:
  "i64 0 = 0" "i64 1 = 1" "i64 (- 1) = - 1"
  "i64 (numeral n) = (numeral n + 2 ^ 63) mod 2 ^ 64 - 2 ^ 63"
  "i64 (- numeral n) = (- numeral n + 2 ^ 63) mod 2 ^ 64 - 2 ^ 63"
  by (simp_all add: i64_def)

lemmas alloc_simps =
  i64_numerals shl64_def log_def roundup_def roundup64_def pageRank_def slotRank_def rank_def cap_def
  BitLen.simps setPage_def setSlot_def
  memNode_flush_def memNode_setNext_def memNode_setPrev_def flush_node_def memNode_unlink_def
  memPage_flush_def flush_page_def setBrk_def setNext_def setPrev_def setRank_def setSize_def
  setUsed_def setTail_def slot_def newMemPage_def memPage_unlink_def
  flush_def flush_ret_def check_def insertPage_def insertSlot_def
  freeSlots_def split_def newPage_def newSharedPage_def page_of_def sbrk_def sbrk2_def allocSlot_def
  allocBig2_def allocMaxRank_def allocBig_def Alloc_def Calloc_def Close_def usableSize_def
  UsableSize_def freePage_def Free_def Realloc_fit_def Realloc_def
  allocBig_loop.simps Calloc_loop.simps freeLastPage.simps Realloc_loop.simps
  openPage_eq openNode_eq Allocator_read_eq write_file_page_bytes write_file_node_bytes
  write_file_write_be write_file_header_bytes truncate_file_eq readable_def
  rd64_store64_hit rd64_store64_miss rd64_store64_gap rd64_set_length header_values_def Let_def

text \<open>An empty store, the allocator opened on it, and the states after one small and
  after one large allocation.\<close>

definition empty_file :: File where
  "empty_file = \<lparr>data = (\<lambda>_. 0), flen = 0, broken = False\<rparr>"

definition zero_allocator :: Allocator where
  "zero_allocator = \<lparr>dirty = False, a_f = empty_file, pages = (\<lambda>_. 0), slots = (\<lambda>_. 0),
                      fsize = 0, allocs = 0, bytes = 0, npages = 0\<rparr>"

definition fresh :: Allocator where
  "fresh = (case NewAllocator empty_file of Ok a \<Rightarrow> a | _ \<Rightarrow> zero_allocator)"

definition small1 :: Allocator where
  "small1 = fst (Alloc fresh 10)"

definition big1 :: Allocator where
  "big1 = fst (Alloc fresh 10000)"


definition break_file :: "Allocator \<Rightarrow> Allocator" where
  "break_file a = a\<lparr>a_f := (a_f a)\<lparr>broken := True\<rparr>\<rparr>"

lemma fresh_eq:
  "fresh = \<lparr>dirty = False, a_f = store_bytes empty_file 16 (replicate 240 0), pages = (\<lambda>_. 0),
             slots = (\<lambda>_. 0), fsize = 0, allocs = 0, bytes = 0, npages = 0\<rparr>"
  by (simp add: fresh_def NewAllocator_def WriteAt_def empty_file_def)

lemma NewAllocator_empty: "NewAllocator empty_file = Ok fresh"
  by (simp add: fresh_eq NewAllocator_def WriteAt_def empty_file_def)

lemma fresh_file [simp]: "flen (a_f fresh) = 256" "broken (a_f fresh) = False"
  by (simp_all add: fresh_eq empty_file_def)

lemma fresh_fields [simp]:
  "dirty fresh = False" "pages fresh = (\<lambda>_. 0)" "slots fresh = (\<lambda>_. 0)" "fsize fresh = 0"
  "allocs fresh = 0" "bytes fresh = 0" "npages fresh = 0"
  by (simp_all add: fresh_eq)

lemma broken_break_file [simp]:
  "flen (a_f (break_file a)) = flen (a_f a)" "broken (a_f (break_file a))"
  "dirty (break_file a) = dirty a"
  by (simp_all add: break_file_def)

section \<open>Realloc with size 0\<close>

text \<open>
  C9. For every \<open>off \<ge> szFile + szPage\<close>, \<open>Realloc(off, 0)\<close> leaves the allocator in the
  state \<open>Free(off)\<close> leaves it in; it returns \<open>-1\<close> with a nil error when \<open>Free\<close>
  succeeds, and the error (or panic) of \<open>Free\<close> otherwise.
\<close>

theorem Realloc_zero_frees:
  "szFile + szPage \<le> off \<Longrightarrow>
     fst (Realloc a off 0) = fst (Free a off)
     \<and> (snd (Free a off) = Ok () \<longrightarrow> snd (Realloc a off 0) = Ok (- 1))
     \<and> (\<forall>e. snd (Free a off) = Err e \<longrightarrow> snd (Realloc a off 0) = Err e)
     \<and> (snd (Free a off) = Panic \<longrightarrow> snd (Realloc a off 0) = Panic)"
  by (cases "Free a off"; cases "snd (Free a off)"; simp add: Realloc_def)

lemma Free_small1:
  "snd (Free small1 304) = Ok ()" "fsize (fst (Free small1 304)) = 256"
  "flen (a_f (fst (Free small1 304))) = 256"
  by (simp_all add: alloc_simps small1_def)

theorem Realloc_zero_frees_witness:
  "szFile + szPage \<le> (304 :: int)
   \<and> fst (Realloc small1 304 0) = fst (Free small1 304)
   \<and> snd (Realloc small1 304 0) = Ok (- 1)
   \<and> fsize (fst (Realloc small1 304 0)) = 256"
proof -
  have h: "szFile + szPage \<le> (304 :: int)" by simp
  show ?thesis
    using Realloc_zero_frees [OF h, of small1] Free_small1 by simp
qed

section \<open>Scenarios on an empty store\<close>

lemma small1_facts:
  "snd (Alloc fresh 10) = Ok 304" "fsize small1 = 4352" "flen (a_f small1) = 4352"
  "snd (UsableSize small1 304) = Ok 16"
  by (simp_all add: alloc_simps small1_def)

text \<open>
  C5. On the allocator opened on an empty store (\<open>fresh\<close>): \<open>Alloc(10)\<close> returns 304 and
  leaves \<open>fsize = 4352\<close> (the state \<open>small1\<close>); there \<open>UsableSize(304)\<close> is 16, and
  \<open>Free(304)\<close> succeeds and truncates the store, so that \<open>fsize\<close> and the length of the
  store are 256 again.
\<close>

theorem single_small_alloc:
  "NewAllocator empty_file = Ok fresh
   \<and> snd (Alloc fresh 10) = Ok 304
   \<and> small1 = fst (Alloc fresh 10)
   \<and> fsize small1 = 4352 \<and> flen (a_f small1) = 4352
   \<and> snd (UsableSize small1 304) = Ok 16
   \<and> snd (Free small1 304) = Ok ()
   \<and> fsize (fst (Free small1 304)) = 256
   \<and> flen (a_f (fst (Free small1 304))) = 256"
  using NewAllocator_empty small1_facts Free_small1
  by (simp add: small1_def)

lemma big1_facts:
  "snd (Alloc fresh 10000) = Ok 304"
  "snd (openPage big1 256)
     = Ok \<lparr>p_dirty = False, p_off = 256, p_brk = 0, p_prev = 0, p_next = 0, p_rank = 9,
            p_size = 12288, p_used = 0\<rparr>"
  by (simp_all add: alloc_simps big1_def)

lemma big1_Realloc_facts:
  "snd (Realloc big1 304 5000) = Ok 304"
  "snd (openPage (fst (Realloc big1 304 5000)) 256)
     = Ok \<lparr>p_dirty = False, p_off = 256, p_brk = 0, p_prev = 0, p_next = 0, p_rank = 8,
            p_size = 8192, p_used = 0\<rparr>"
  "snd (Allocator_read (fst (Realloc big1 304 5000)) 8440) = Ok 0"
  "snd (openPage (fst (Realloc big1 304 5000)) 8448)
     = Ok \<lparr>p_dirty = False, p_off = 8448, p_brk = 0, p_prev = 0, p_next = 0, p_rank = 7,
            p_size = 4096, p_used = 0\<rparr>"
  "pages (fst (Realloc big1 304 5000)) 7 = 8448"
  "snd (Allocator_read (fst (Realloc big1 304 5000)) 12536) = Ok 4096"
  by (simp_all add: alloc_simps big1_def)

text \<open>
  C6. On the allocator opened on an empty store, \<open>Alloc(10000)\<close> returns 304 and creates
  at offset 256 a page of rank 9 and size 12288 (the state \<open>big1\<close>). \<open>Realloc(304, 5000)\<close>
  then returns 304; afterwards the page at 256 has rank 8 and size 8192 and its tail word
  (at 8440) is 0, and at 8448 there is a page of rank 7 and size 4096 that is the head of
  \<open>pages[7]\<close>, with tail word (at 12536) 4096.
\<close>

theorem large_alloc_realloc_shrink:
  "snd (Alloc fresh 10000) = Ok 304
   \<and> big1 = fst (Alloc fresh 10000)
   \<and> snd (openPage big1 256)
       = Ok \<lparr>p_dirty = False, p_off = 256, p_brk = 0, p_prev = 0, p_next = 0, p_rank = 9,
              p_size = 12288, p_used = 0\<rparr>
   \<and> snd (Realloc big1 304 5000) = Ok 304
   \<and> snd (openPage (fst (Realloc big1 304 5000)) 256)
       = Ok \<lparr>p_dirty = False, p_off = 256, p_brk = 0, p_prev = 0, p_next = 0, p_rank = 8,
              p_size = 8192, p_used = 0\<rparr>
   \<and> snd (Allocator_read (fst (Realloc big1 304 5000)) 8440) = Ok 0
   \<and> snd (openPage (fst (Realloc big1 304 5000)) 8448)
       = Ok \<lparr>p_dirty = False, p_off = 8448, p_brk = 0, p_prev = 0, p_next = 0, p_rank = 7,
              p_size = 4096, p_used = 0\<rparr>
   \<and> pages (fst (Realloc big1 304 5000)) 7 = 8448
   \<and> snd (Allocator_read (fst (Realloc big1 304 5000)) 12536) = Ok 4096"
  using big1_facts big1_Realloc_facts
  by (simp add: big1_def)





section \<open>The dirty flag after a flush\<close>

lemma flush_facts:
  "dirty (setPage fresh 0 0)"
  "snd (flush (setPage fresh 0 0)) = None"
  "dirty (fst (flush (setPage fresh 0 0)))"
  "snd (flush (break_file (setPage fresh 0 0))) = Some IOError"
  "\<not> dirty (fst (flush (break_file (setPage fresh 0 0))))"
  "p_dirty (setUsed (newMemPage 256) 1)"
  "snd (memPage_flush (setUsed (newMemPage 256) 1) fresh) = None"
  "p_dirty (snd (fst (memPage_flush (setUsed (newMemPage 256) 1) fresh)))"
  "snd (memPage_flush (setUsed (newMemPage 256) 1) (break_file fresh)) = Some IOError"
  "\<not> p_dirty (snd (fst (memPage_flush (setUsed (newMemPage 256) 1) (break_file fresh))))"
  "snd (memNode_flush \<lparr>n_dirty = True, n_prev = 0, n_next = 0, n_off = 304\<rparr> small1) = None"
  "n_dirty (snd (fst (memNode_flush \<lparr>n_dirty = True, n_prev = 0, n_next = 0, n_off = 304\<rparr> small1)))"
  "snd (memNode_flush \<lparr>n_dirty = True, n_prev = 0, n_next = 0, n_off = 304\<rparr> (break_file small1))
     = Some IOError"
  "\<not> n_dirty (snd (fst (memNode_flush \<lparr>n_dirty = True, n_prev = 0, n_next = 0, n_off = 304\<rparr>
                              (break_file small1))))"
  by (simp_all add: alloc_simps small1_def)

text \<open>
  C2, what the code does. A dirty header, page or node whose write succeeds is still
  dirty after \<open>flush\<close>, and one whose write fails (the store is \<open>broken\<close>) is marked
  clean: each \<open>flush\<close> ends with \<open>dirty = err == nil\<close>.
\<close>

theorem flush_success_leaves_dirty:
  "dirty (setPage fresh 0 0)
   \<and> snd (flush (setPage fresh 0 0)) = None
   \<and> dirty (fst (flush (setPage fresh 0 0)))
   \<and> snd (flush (break_file (setPage fresh 0 0))) = Some IOError
   \<and> \<not> dirty (fst (flush (break_file (setPage fresh 0 0))))
   \<and> p_dirty (setUsed (newMemPage 256) 1)
   \<and> snd (memPage_flush (setUsed (newMemPage 256) 1) fresh) = None
   \<and> p_dirty (snd (fst (memPage_flush (setUsed (newMemPage 256) 1) fresh)))
   \<and> snd (memPage_flush (setUsed (newMemPage 256) 1) (break_file fresh)) = Some IOError
   \<and> \<not> p_dirty (snd (fst (memPage_flush (setUsed (newMemPage 256) 1) (break_file fresh))))
   \<and> snd (memNode_flush \<lparr>n_dirty = True, n_prev = 0, n_next = 0, n_off = 304\<rparr> small1) = None
   \<and> n_dirty (snd (fst (memNode_flush \<lparr>n_dirty = True, n_prev = 0, n_next = 0, n_off = 304\<rparr> small1)))
   \<and> snd (memNode_flush \<lparr>n_dirty = True, n_prev = 0, n_next = 0, n_off = 304\<rparr> (break_file small1))
       = Some IOError
   \<and> \<not> n_dirty (snd (fst (memNode_flush \<lparr>n_dirty = True, n_prev = 0, n_next = 0, n_off = 304\<rparr>
                                (break_file small1))))"
  using flush_facts by simp

section \<open>Non-positive sizes\<close>

lemma Alloc_nonpositive: "sz \<le> 0 \<Longrightarrow> Alloc a sz = (a, Err InvalidArgument)"
  by (simp add: Alloc_def)

lemma Calloc_nonpositive: "sz \<le> 0 \<Longrightarrow> Calloc a sz = (a, Err InvalidArgument)"
  by (simp add: Calloc_def Alloc_nonpositive)

lemma Realloc_negative_facts:
  "snd (Realloc small1 304 (- 1)) = Panic"
  by (simp_all add: alloc_simps small1_def)

text \<open>
  C4, what the code does. \<open>Alloc\<close> and \<open>Calloc\<close> return the invalid-argument error for a
  size \<open>\<le> 0\<close> and leave the state as it is; \<open>Realloc\<close> has no such check: on the live
  offset 304 of \<open>small1\<close> (usable size 16), \<open>Realloc(304, -1)\<close> reaches
  \<open>slotRank(-1)\<close>, which panics.
\<close>

theorem Realloc_negative_size_panics:
  "Alloc small1 (- 1) = (small1, Err InvalidArgument)
   \<and> Calloc small1 (- 1) = (small1, Err InvalidArgument)
   \<and> snd (UsableSize small1 304) = Ok 16
   \<and> snd (Realloc small1 304 (- 1)) = Panic"
  using Realloc_negative_facts small1_facts
  by (simp add: Alloc_nonpositive Calloc_nonpositive)

section \<open>Opening a store\<close>

definition head_at :: "File \<Rightarrow> nat \<Rightarrow> int" where
  "head_at fl k = rd64 fl (oFileSkip + 8 * int k)"

definition heads_in_range :: "File \<Rightarrow> bool" where
  "heads_in_range fl \<longleftrightarrow> list_all (\<lambda>k. 0 \<le> head_at fl k \<and> head_at fl k \<le> flen fl - szPage) [0..<30]"

lemma load_heads_eq:
  "load_heads buf base mx ks arr =
     (if \<forall>k \<in> set ks. 0 \<le> read (drop (base + 8 * k) buf) \<and> read (drop (base + 8 * k) buf) \<le> mx
      then Ok (\<lambda>j. if j \<in> set ks then read (drop (base + 8 * j) buf) else arr j)
      else Err CorruptedFile)"
proof (induction ks arbitrary: arr)
  case Nil
  then show ?case by simp
next
  case (Cons k ks)
  let ?v = "\<lambda>k. read (drop (base + 8 * k) buf)"
  show ?case
  proof (cases "0 \<le> ?v k \<and> ?v k \<le> mx")
    case True
    then have "load_heads buf base mx (k # ks) arr = load_heads buf base mx ks (arr(k := ?v k))"
      by (simp add: check_def)
    also have "\<dots> = (if \<forall>k \<in> set ks. 0 \<le> ?v k \<and> ?v k \<le> mx
                      then Ok (\<lambda>j. if j \<in> set ks then ?v j else (arr(k := ?v k)) j)
                      else Err CorruptedFile)"
      by (rule Cons.IH)
    also have "(\<lambda>j. if j \<in> set ks then ?v j else (arr(k := ?v k)) j)
                 = (\<lambda>j. if j \<in> set (k # ks) then ?v j else arr j)"
      by (rule ext) simp
    finally show ?thesis using True by simp
  next
    case False
    then have "load_heads buf base mx (k # ks) arr = Err CorruptedFile"
      by (auto simp: check_def)
    with False show ?thesis by auto
  qed
qed

lemma heads_in_range_iff:
  "heads_in_range fl \<longleftrightarrow>
     (\<forall>k < 23. 0 \<le> head_at fl k \<and> head_at fl k \<le> flen fl - 48)
     \<and> (\<forall>k < 7. 0 \<le> head_at fl (23 + k) \<and> head_at fl (23 + k) \<le> flen fl - 48)"
proof -
  have "(\<forall>k < 30. P k) \<longleftrightarrow> (\<forall>k < 23. P k) \<and> (\<forall>k < 7. P (23 + k))" for P :: "nat \<Rightarrow> bool"
  proof (intro iffI conjI allI impI)
    fix k assume a: "(\<forall>k<23. P k) \<and> (\<forall>k<7. P (23 + k))" and k: "k < (30 :: nat)"
    show "P k"
    proof (cases "k < 23")
      case True
      with a show ?thesis by simp
    next
      case False
      then have "k - 23 < 7" "k = 23 + (k - 23)" using k by simp_all
      with a show ?thesis by metis
    qed
  qed simp_all
  then show ?thesis
    by (simp add: heads_in_range_def list_all_iff Ball_def)
qed

text \<open>
  C1, as the code has it. A store of at most 16 bytes (\<open>oFileSkip\<close>, the user area) that
  accepts the write is initialised: 240 zero bytes are written at offset 16, and all list
  heads of the allocator are 0. A store of 17 to 255 bytes fails with the error of the
  short read. A store of at least 256 bytes is read: with every one of the 23 + 7 list
  heads in \<open>[0, fsize - szPage]\<close> the allocator holds the decoded heads and the store is
  untouched; with some head outside that range the result is the corrupt-file error.
\<close>

theorem NewAllocator_cases:
  "(flen fl \<le> 16 \<and> \<not> broken fl \<longrightarrow>
      (\<exists>a. NewAllocator fl = Ok a \<and> a_f a = store_bytes fl 16 (replicate 240 0)
           \<and> (\<forall>i. pages a i = 0) \<and> (\<forall>i. slots a i = 0) \<and> fsize a = flen fl))
   \<and> (16 < flen fl \<and> flen fl < 256 \<longrightarrow> NewAllocator fl = Err EOF)
   \<and> (256 \<le> flen fl \<and> flen fl \<le> max_int64 \<and> heads_in_range fl \<longrightarrow>
      (\<exists>a. NewAllocator fl = Ok a \<and> a_f a = fl \<and> fsize a = flen fl
           \<and> (\<forall>i < 23. pages a i = head_at fl i) \<and> (\<forall>i < 7. slots a i = head_at fl (23 + i))))
   \<and> (256 \<le> flen fl \<and> flen fl \<le> max_int64 \<and> \<not> heads_in_range fl \<longrightarrow>
      NewAllocator fl = Err CorruptedFile)"
proof (intro conjI impI)
  assume "flen fl \<le> 16 \<and> \<not> broken fl"
  then show "\<exists>a. NewAllocator fl = Ok a \<and> a_f a = store_bytes fl 16 (replicate 240 0)
           \<and> (\<forall>i. pages a i = 0) \<and> (\<forall>i. slots a i = 0) \<and> fsize a = flen fl"
    by (simp add: NewAllocator_def WriteAt_def)
next
  assume "16 < flen fl \<and> flen fl < 256"
  then show "NewAllocator fl = Err EOF"
    by (simp add: NewAllocator_def ReadAt_def)
next
  let ?buf = "map (\<lambda>k. data fl (16 + int k)) [0..<240]"
  have rd: "ReadAt fl 240 16 = (?buf, None)" if "256 \<le> flen fl"
    using that by (simp add: ReadAt_def)
  have pg: "read (drop (0 + 8 * k) ?buf) = head_at fl k" if "k < 23" for k
    using that read_drop_map [of "8 * k" 240 fl 16] by (simp add: head_at_def)
  have sl: "read (drop (184 + 8 * k) ?buf) = head_at fl (23 + k)" if "k < 7" for k
    using that read_drop_map [of "184 + 8 * k" 240 fl 16] by (simp add: head_at_def)
  have mx: "i64 (flen fl - 48) = flen fl - 48" if "256 \<le> flen fl" "flen fl \<le> max_int64"
    using that by (intro i64_id) (simp add: in64_def)
  have pgs: "(\<forall>k \<in> set [0..<23]. 0 \<le> read (drop (0 + 8 * k) ?buf) \<and> read (drop (0 + 8 * k) ?buf) \<le> m)
               \<longleftrightarrow> (\<forall>k < 23. 0 \<le> head_at fl k \<and> head_at fl k \<le> m)" for m
    using pg by auto
  have sls: "(\<forall>k \<in> set [0..<7]. 0 \<le> read (drop (184 + 8 * k) ?buf) \<and> read (drop (184 + 8 * k) ?buf) \<le> m)
               \<longleftrightarrow> (\<forall>k < 7. 0 \<le> head_at fl (23 + k) \<and> head_at fl (23 + k) \<le> m)" for m
    using sl by auto
  {
    assume a: "256 \<le> flen fl \<and> flen fl \<le> max_int64 \<and> heads_in_range fl"
    then have h: "\<forall>k < 23. 0 \<le> head_at fl k \<and> head_at fl k \<le> flen fl - 48"
      "\<forall>k < 7. 0 \<le> head_at fl (23 + k) \<and> head_at fl (23 + k) \<le> flen fl - 48"
      by (simp_all add: heads_in_range_iff)
    have p: "load_heads ?buf 0 (flen fl - 48) [0..<23] (\<lambda>_. 0)
               = Ok (\<lambda>j. if j \<in> set [0..<23] then read (drop (0 + 8 * j) ?buf) else 0)"
      unfolding load_heads_eq pgs using h(1) by (rule if_P)
    have q: "load_heads ?buf 184 (flen fl - 48) [0..<7] (\<lambda>_. 0)
               = Ok (\<lambda>j. if j \<in> set [0..<7] then read (drop (184 + 8 * j) ?buf) else 0)"
      unfolding load_heads_eq sls using h(2) by (rule if_P)
    have "NewAllocator fl
            = Ok \<lparr>dirty = False, a_f = fl,
                  pages = (\<lambda>j. if j \<in> set [0..<23] then read (drop (0 + 8 * j) ?buf) else 0),
                  slots = (\<lambda>j. if j \<in> set [0..<7] then read (drop (184 + 8 * j) ?buf) else 0),
                  fsize = flen fl, allocs = 0, bytes = 0, npages = 0\<rparr>"
      using a rd mx p q by (simp add: NewAllocator_def)
    then show "\<exists>a. NewAllocator fl = Ok a \<and> a_f a = fl \<and> fsize a = flen fl
           \<and> (\<forall>i < 23. pages a i = head_at fl i) \<and> (\<forall>i < 7. slots a i = head_at fl (23 + i))"
      using pg sl by simp
  }
  {
    assume a: "256 \<le> flen fl \<and> flen fl \<le> max_int64 \<and> \<not> heads_in_range fl"
    then have n: "\<not> (\<forall>k < 23. 0 \<le> head_at fl k \<and> head_at fl k \<le> flen fl - 48)
       \<or> \<not> (\<forall>k < 7. 0 \<le> head_at fl (23 + k) \<and> head_at fl (23 + k) \<le> flen fl - 48)"
      by (simp add: heads_in_range_iff)
    show "NewAllocator fl = Err CorruptedFile"
    proof (cases "\<forall>k < 23. 0 \<le> head_at fl k \<and> head_at fl k \<le> flen fl - 48")
      case False
      then have "load_heads ?buf 0 (flen fl - 48) [0..<23] (\<lambda>_. 0) = Err CorruptedFile"
        unfolding load_heads_eq pgs by (rule if_not_P)
      then show ?thesis using a rd mx by (simp add: NewAllocator_def)
    next
      case True
      then have p: "load_heads ?buf 0 (flen fl - 48) [0..<23] (\<lambda>_. 0)
               = Ok (\<lambda>j. if j \<in> set [0..<23] then read (drop (0 + 8 * j) ?buf) else 0)"
        unfolding load_heads_eq pgs by (rule if_P)
      from True n have "\<not> (\<forall>k < 7. 0 \<le> head_at fl (23 + k) \<and> head_at fl (23 + k) \<le> flen fl - 48)"
        by blast
      then have "load_heads ?buf 184 (flen fl - 48) [0..<7] (\<lambda>_. 0) = Err CorruptedFile"
        unfolding load_heads_eq sls by (rule if_not_P)
      then show ?thesis using a rd mx p by (simp add: NewAllocator_def)
    qed
  }
qed

definition short_file :: File where
  "short_file = \<lparr>data = (\<lambda>_. 0), flen = 100, broken = False\<rparr>"

text \<open>
  C1 as stated fails on a store of 100 bytes: it is not initialised, the short read of
  the header is returned as an error.
\<close>

theorem NewAllocator_short_store:
  "flen short_file \<le> szFile \<and> NewAllocator short_file = Err EOF"
  by (simp add: short_file_def NewAllocator_def ReadAt_def)

definition corrupt_file :: File where
  "corrupt_file = store64 (a_f small1) 16 [5000]"

lemma small1_file:
  "a_f small1 = store64 (store64 (store64 (a_f fresh) 4344 [0]) 256 [1, 0, 0, 0, 4096, 1]) 16
                  (map ((\<lambda>_. 0)(0 := 256)) [0..<23] @ map (\<lambda>_. 0) [0..<7])"
  by (simp add: alloc_simps small1_def)

lemma head_at_small1: "k < 30 \<Longrightarrow> head_at (a_f small1) k = (if k = 0 then 256 else 0)"
proof -
  assume k: "k < 30"
  let ?vs = "map ((\<lambda>_. 0)(0 := 256 :: int)) [0..<23] @ map (\<lambda>_. 0) [0..<7]"
  have "k < length ?vs" using k by simp
  then have "head_at (a_f small1) k = i64 (?vs ! k)"
    unfolding head_at_def small1_file by (rule rd64_store64_nth)
  also have "?vs ! k = (if k = 0 then 256 else 0)"
    using k by (simp add: nth_append)
  finally show ?thesis by (simp add: i64_numerals)
qed

lemma heads_in_range_small1: "heads_in_range (a_f small1)"
  by (simp add: heads_in_range_def list_all_iff head_at_small1 small1_facts)

lemma corrupt_file_facts:
  "flen corrupt_file = 4352" "head_at corrupt_file 0 = 5000" "\<not> heads_in_range corrupt_file"
proof -
  show l: "flen corrupt_file = 4352" by (simp add: corrupt_file_def small1_facts)
  show h: "head_at corrupt_file 0 = 5000"
    using rd64_store64_nth [of 0 "[5000]" "a_f small1" 16]
    by (simp add: head_at_def corrupt_file_def i64_numerals)
  have "\<not> (0 \<le> head_at corrupt_file 0 \<and> head_at corrupt_file 0 \<le> flen corrupt_file - 48)"
    using l h by simp
  then show "\<not> heads_in_range corrupt_file"
    by (auto simp: heads_in_range_def list_all_iff)
qed

definition stub_file :: File where
  "stub_file = \<lparr>data = (\<lambda>_. 0), flen = 20, broken = False\<rparr>"

theorem NewAllocator_cases_witness:
  "flen empty_file \<le> 16 \<and> \<not> broken empty_file
   \<and> (\<exists>a. NewAllocator empty_file = Ok a \<and> a_f a = store_bytes empty_file 16 (replicate 240 0)
          \<and> pages a 0 = 0 \<and> flen (a_f a) = 256)
   \<and> 16 < flen stub_file \<and> flen stub_file < 256 \<and> NewAllocator stub_file = Err EOF
   \<and> 256 \<le> flen (a_f small1) \<and> heads_in_range (a_f small1)
   \<and> (\<exists>a. NewAllocator (a_f small1) = Ok a \<and> a_f a = a_f small1 \<and> pages a 0 = 256 \<and> slots a 0 = 0)
   \<and> 256 \<le> flen corrupt_file \<and> \<not> heads_in_range corrupt_file
   \<and> NewAllocator corrupt_file = Err CorruptedFile"
proof -
  have e: "flen empty_file \<le> 16 \<and> \<not> broken empty_file" by (simp add: empty_file_def)
  have s: "16 < flen stub_file \<and> flen stub_file < 256" by (simp add: stub_file_def)
  have g: "256 \<le> flen (a_f small1) \<and> flen (a_f small1) \<le> max_int64 \<and> heads_in_range (a_f small1)"
    by (simp add: small1_facts heads_in_range_small1)
  have c: "256 \<le> flen corrupt_file \<and> flen corrupt_file \<le> max_int64 \<and> \<not> heads_in_range corrupt_file"
    by (simp add: corrupt_file_facts)
  have h0: "head_at (a_f small1) 0 = 256" "head_at (a_f small1) (23 + 0) = 0"
    by (simp_all add: head_at_small1)
  from NewAllocator_cases [of empty_file] e
  have 1: "\<exists>a. NewAllocator empty_file = Ok a \<and> a_f a = store_bytes empty_file 16 (replicate 240 0)
          \<and> pages a 0 = 0 \<and> flen (a_f a) = 256"
    by (auto simp: empty_file_def)
  from NewAllocator_cases [of stub_file] s have 2: "NewAllocator stub_file = Err EOF" by blast
  from NewAllocator_cases [of "a_f small1"] g
  obtain a where "NewAllocator (a_f small1) = Ok a" "a_f a = a_f small1"
    "\<forall>i < 23. pages a i = head_at (a_f small1) i" "\<forall>i < 7. slots a i = head_at (a_f small1) (23 + i)"
    by blast
  with h0 have 3: "\<exists>a. NewAllocator (a_f small1) = Ok a \<and> a_f a = a_f small1 \<and> pages a 0 = 256 \<and> slots a 0 = 0"
    by auto
  from NewAllocator_cases [of corrupt_file] c have 4: "NewAllocator corrupt_file = Err CorruptedFile"
    by blast
  from e s g c 1 2 3 4 show ?thesis by blast
qed

section \<open>Realloc to the usable size\<close>

lemma and_not_4095: "(y :: int) AND NOT 4095 = y - y mod 4096"
proof -
  have m: "(4095 :: int) = mask 12" by (simp add: mask_eq_exp_minus_1)
  have "y AND NOT (mask 12) = push_bit 12 (drop_bit 12 y)"
    by (rule bit_eqI) (auto simp: bit_simps)
  also have "\<dots> = y - y mod 4096"
    by (simp add: push_bit_eq_mult drop_bit_eq_div minus_mod_eq_div_mult)
  finally show ?thesis by (simp only: m)
qed

lemma and_minus_4096: "(y :: int) AND - 4096 = y - y mod 4096"
  using and_not_4095 [of y] by simp

lemma roundup64_pageSize:
  "in64 n \<Longrightarrow> n \<le> max_int64 - 4095 \<Longrightarrow> roundup64 n pageSize = (n + 4095) - (n + 4095) mod 4096"
proof -
  assume n: "in64 n" "n \<le> max_int64 - 4095"
  have "i64 (i64 (n + 4096) - 1) = n + 4095"
  proof (cases "n \<le> max_int64 - 4096")
    case True
    with n have "i64 (n + 4096) = n + 4096" by (intro i64_id) (simp add: in64_def)
    moreover from n have "i64 (n + 4096 - 1) = n + 4096 - 1" by (intro i64_id) (simp add: in64_def)
    ultimately show ?thesis by simp
  next
    case False
    with n have "n = 9223372036854771712" by simp
    then show ?thesis by (simp add: i64_def)
  qed
  then show ?thesis
    by (simp add: roundup64_def i64_numerals and_minus_4096)
qed

lemma pageRank_eq:
  "in64 n \<Longrightarrow> maxSlot < n \<Longrightarrow> n \<le> max_int64 - 4095 \<Longrightarrow>
     pageRank n = Ok (min ((n + 4095) div 4096 + 6) 22)"
proof -
  assume n: "in64 n" "maxSlot < n" "n \<le> max_int64 - 4095"
  let ?q = "(n + 4095) div 4096"
  have r: "roundup64 n pageSize = ?q * 4096"
    using n by (simp add: roundup64_pageSize minus_mod_eq_div_mult)
  have q: "0 \<le> ?q" "?q \<le> 2251799813685247" using n by simp_all
  then have "i64 (?q + 6) = ?q + 6" by (intro i64_id) (simp add: in64_def)
  then show ?thesis
    using n by (simp add: pageRank_def r drop_bit_eq_div Let_def min_def)
qed

text \<open>The ranks of the sizes that \<open>usableSize\<close> reports.\<close>

lemma slotRank_pow: "0 \<le> r \<Longrightarrow> r \<le> 6 \<Longrightarrow> slotRank (shl64 1 (i64 (r + 4))) = Ok r"
proof -
  assume "0 \<le> r" "r \<le> 6"
  then have "r = 0 \<or> r = 1 \<or> r = 2 \<or> r = 3 \<or> r = 4 \<or> r = 5 \<or> r = 6" by arith
  then show ?thesis
    by (elim disjE) (simp_all add: alloc_simps)
qed

lemma shl64_rank: "0 \<le> r \<Longrightarrow> r \<le> 6 \<Longrightarrow> 16 \<le> shl64 1 (i64 (r + 4)) \<and> shl64 1 (i64 (r + 4)) \<le> 1024"
proof -
  assume "0 \<le> r" "r \<le> 6"
  then have "r = 0 \<or> r = 1 \<or> r = 2 \<or> r = 3 \<or> r = 4 \<or> r = 5 \<or> r = 6" by arith
  then show ?thesis
    by (elim disjE) (simp_all add: alloc_simps)
qed

definition page_ranked :: "memPage \<Rightarrow> bool" where
  "page_ranked p \<longleftrightarrow>
     p_rank p \<le> maxSharedRank
     \<or> (pageSize \<le> p_size p \<and> p_size p mod pageSize = 0
        \<and> p_rank p = min (p_size p div pageSize + 6) (ranks - 1))"

lemma usableSize_OkD:
  "usableSize a off = (a', Ok (n, p)) \<Longrightarrow>
     a' = a \<and> szFile + szPage \<le> off \<and> openPage a (page_of off) = (a, Ok p)
     \<and> 0 \<le> p_rank p \<and> p_rank p < ranks \<and> in64 (p_size p)
     \<and> n = (if p_rank p \<le> maxSharedRank then shl64 1 (i64 (p_rank p + 4))
            else i64 (i64 (p_size p - szPage) - szTail))"
  by (auto simp: usableSize_def openPage_eq split: if_splits)

lemma exclusive_size:
  assumes "in64 s" "4096 \<le> s" "s mod 4096 = 0"
  shows "i64 (i64 (s - 48) - 8) = s - 56" "s - 56 \<le> max_int64 - 4095"
    "(s - 56 + 4095) div 4096 = s div 4096"
proof -
  obtain q where q: "s = 4096 * q"
    using assms(3) by (auto simp: mod_eq_0_iff_dvd)
  have "s div 4096 \<le> 9223372036854775807 div 4096"
    using assms(1) by (intro zdiv_mono1) (simp_all add: in64_def)
  then have le: "s \<le> 9223372036854771712"
    using q by simp
  have "i64 (s - 48) = s - 48" using assms le by (intro i64_id) (simp add: in64_def)
  moreover have "i64 (s - 48 - 8) = s - 48 - 8" using assms le by (intro i64_id) (simp add: in64_def)
  ultimately show "i64 (i64 (s - 48) - 8) = s - 56" by simp
  show "s - 56 \<le> max_int64 - 4095" using le by simp
  have "(4096 * q + 4039) div 4096 = q" by simp
  then show "(s - 56 + 4095) div 4096 = s div 4096" using q by simp
qed

text \<open>
  C8. When \<open>usableSize(off)\<close> succeeds with size \<open>n\<close> on a page that is shared
  (rank \<open>\<le> 6\<close>) or is an exclusive page whose size is a positive multiple of
  \<open>pageSize\<close> and whose rank is the one of its size, \<open>Realloc(off, n)\<close> returns
  \<open>off\<close> and leaves the allocator and the store as they are.
\<close>

theorem Realloc_to_usable_size:
  "usableSize a off = (a', Ok (n, p)) \<Longrightarrow> page_ranked p \<Longrightarrow> Realloc a off n = (a, Ok off)"
proof -
  assume u: "usableSize a off = (a', Ok (n, p))" and pr: "page_ranked p"
  from usableSize_OkD [OF u]
  have a': "a' = a" and off: "szFile + szPage \<le> off"
    and rk: "0 \<le> p_rank p" "p_rank p < ranks" and sz: "in64 (p_size p)"
    and n: "n = (if p_rank p \<le> maxSharedRank then shl64 1 (i64 (p_rank p + 4))
                else i64 (i64 (p_size p - szPage) - szTail))"
    by simp_all
  have ua: "usableSize a off = (a, Ok (n, p))" using u a' by simp
  have "n \<noteq> 0 \<and> rank n = Ok (p_rank p)"
  proof (cases "p_rank p \<le> maxSharedRank")
    case True
    with n rk shl64_rank [of "p_rank p"] slotRank_pow [of "p_rank p"] show ?thesis
      by (simp add: rank_def)
  next
    case False
    with pr have s: "4096 \<le> p_size p" "p_size p mod 4096 = 0"
      and r: "p_rank p = min (p_size p div 4096 + 6) 22"
      by (simp_all add: page_ranked_def)
    from False n exclusive_size [OF sz s] have n': "n = p_size p - 56" by simp
    have "in64 n" using n' sz s by (simp add: in64_def)
    moreover have "maxSlot < n" using n' s by simp
    moreover have "n \<le> max_int64 - 4095" using n' exclusive_size(2) [OF sz s] by simp
    ultimately have "pageRank n = Ok (min ((n + 4095) div 4096 + 6) 22)"
      by (rule pageRank_eq)
    with n' exclusive_size(3) [OF sz s] r \<open>maxSlot < n\<close> show ?thesis
      by (simp add: rank_def)
  qed
  then have "Realloc_fit a off n n p = (a, Ok (Some off))" "n \<noteq> 0"
    by (simp_all add: Realloc_fit_def)
  with off ua show ?thesis
    by (simp add: Realloc_def)
qed

lemma usableSize_small1:
  "usableSize small1 304
     = (small1, Ok (16, \<lparr>p_dirty = False, p_off = 256, p_brk = 1, p_prev = 0, p_next = 0,
                          p_rank = 0, p_size = 4096, p_used = 1\<rparr>))"
  "usableSize big1 304
     = (big1, Ok (12232, \<lparr>p_dirty = False, p_off = 256, p_brk = 0, p_prev = 0, p_next = 0,
                          p_rank = 9, p_size = 12288, p_used = 0\<rparr>))"
  by (simp_all add: alloc_simps small1_def big1_def)

theorem Realloc_to_usable_size_witness:
  "snd (UsableSize small1 304) = Ok 16 \<and> Realloc small1 304 16 = (small1, Ok 304)
   \<and> snd (UsableSize big1 304) = Ok 12232 \<and> Realloc big1 304 12232 = (big1, Ok 304)"
proof -
  have 1: "page_ranked \<lparr>p_dirty = False, p_off = 256, p_brk = 1, p_prev = 0, p_next = 0,
                          p_rank = 0, p_size = 4096, p_used = 1\<rparr>"
    by (simp add: page_ranked_def)
  have 2: "page_ranked \<lparr>p_dirty = False, p_off = 256, p_brk = 0, p_prev = 0, p_next = 0,
                          p_rank = 9, p_size = 12288, p_used = 0\<rparr>"
    by (simp add: page_ranked_def)
  show ?thesis
    using Realloc_to_usable_size [OF usableSize_small1(1) 1]
      Realloc_to_usable_size [OF usableSize_small1(2) 2] usableSize_small1
    by (simp add: UsableSize_def)
qed

end
